theory Spec2Isabelle
  imports Complex_Main "HOL-Library.AList" "HOL-Library.Multiset" "HOL-Library.List_Lexorder"
begin

section \<open>Text: Python strings as lists of code points\<close>

text \<open>
  A Python \<open>str\<close> is a sequence of Unicode code points. The correction table of
  \<open>_limpiar_texto\<close> holds code points above 255 (U+2030, U+201A, U+20AC, ...), so a
  string is a list of natural numbers, one per code point.
\<close>

type_synonym str = "nat list"

definition lit :: "string \<Rightarrow> str" where
  \<comment> \<open>an ASCII literal as a list of code points\<close>
  "lit s = map of_char s"

definition es_espacio :: "nat \<Rightarrow> bool" where
  \<comment> \<open>\<open>str.isspace\<close> on one code point; \<open>\s\<close> of \<open>re\<close> on \<open>str\<close> patterns is the same set\<close>
  "es_espacio c \<longleftrightarrow>
     (9 \<le> c \<and> c \<le> 13) \<or> (28 \<le> c \<and> c \<le> 32) \<or> c = 0x85 \<or> c = 0xA0 \<or> c = 0x1680 \<or>
     (0x2000 \<le> c \<and> c \<le> 0x200A) \<or> c = 0x2028 \<or> c = 0x2029 \<or> c = 0x202F \<or>
     c = 0x205F \<or> c = 0x3000"

fun replace :: "str \<Rightarrow> str \<Rightarrow> str \<Rightarrow> str" where
  \<comment> \<open>\<open>texto.replace(old, new)\<close> for a non-empty \<open>old\<close>: left to right, occurrences
      that do not overlap. An empty \<open>old\<close> puts \<open>new\<close> around every code point.\<close>
  "replace old new [] = (if old = [] then new else [])"
| "replace old new (c # cs) =
     (if old = [] then new @ c # replace old new cs
      else if take (length old) (c # cs) = old
           then new @ replace old new (drop (length old) (c # cs))
           else c # replace old new cs)"

fun split_aux :: "str \<Rightarrow> str \<Rightarrow> str list" where
  \<comment> \<open>the word being read, then the rest of the text\<close>
  "split_aux w [] = (if w = [] then [] else [w])"
| "split_aux w (c # cs) =
     (if es_espacio c then (if w = [] then split_aux [] cs else w # split_aux [] cs)
      else split_aux (w @ [c]) cs)"

definition split :: "str \<Rightarrow> str list" where
  \<comment> \<open>\<open>s.split()\<close> with no argument: the maximal runs of non-whitespace\<close>
  "split s = split_aux [] s"

fun sub_espacios :: "bool \<Rightarrow> str \<Rightarrow> str" where
  \<comment> \<open>\<open>re.sub(r'\s+', ' ', s)\<close>; the flag says that the run of whitespace being read
      has already produced its single space\<close>
  "sub_espacios b [] = []"
| "sub_espacios b (c # cs) =
     (if es_espacio c then (if b then sub_espacios True cs else 32 # sub_espacios True cs)
      else c # sub_espacios False cs)"

fun rstrip :: "str \<Rightarrow> str" where
  "rstrip [] = []"
| "rstrip (c # cs) = (let r = rstrip cs in if r = [] \<and> es_espacio c then [] else c # r)"

definition strip :: "str \<Rightarrow> str" where
  \<comment> \<open>\<open>s.strip()\<close> with no argument\<close>
  "strip s = rstrip (dropWhile es_espacio s)"

definition es_control :: "nat \<Rightarrow> bool" where
  \<comment> \<open>the character class \<open>[\x00-\x1f\x7f-\x9f]\<close>\<close>
  "es_control c \<longleftrightarrow> c \<le> 0x1F \<or> (0x7F \<le> c \<and> c \<le> 0x9F)"

subsection \<open>The correction table of \<open>_limpiar_texto\<close>\<close>

definition correcciones_literal :: "(str \<times> str) list" where
  \<comment> \<open>the pairs of the dict display, in the order and with the repetitions of the source\<close>
  "correcciones_literal = [
    ([0xC3, 0xA1], [0xE1]), ([0xC3, 0xA9], [0xE9]), ([0xC3, 0xAD], [0xED]),
    ([0xC3, 0xB3], [0xF3]), ([0xC3, 0xBA], [0xFA]), ([0xC3, 0xB1], [0xF1]),
    ([0xC3, 0xBC], [0xFC]), ([0xC3, 0xA3], [0xE3]), ([0xC3, 0xB6], [0xF6]),
    ([0xC3, 0xA4], [0xE4]), ([0xC3, 0xA2], [0xE2]), ([0xC3, 0xBB], [0xFB]),
    ([0xC3, 0xAE], [0xEE]), ([0xC3, 0xA8], [0xE8]), ([0xC3, 0xAA], [0xEA]),
    ([0xC3, 0xA7], [0xE7]), ([0xC3, 0x20], [0xE0]), ([0xC3, 0xB4], [0xF4]),
    ([0xC3, 0xB9], [0xF9]), ([0xC3, 0xAB], [0xEB]), ([0xC3, 0xAF], [0xEF]),
    ([0xC3, 0xBD], [0xFD]), ([0xC3, 0xBE], [0xFE]), ([0xC3, 0xBF], [0xFF]),
    ([0xC3], [0xC1]), ([0xC3, 0x2030], [0xC9]), ([0xC3], [0xCD]),
    ([0xC3, 0x22], [0xD3]), ([0xC3, 0x161], [0xDA]), ([0xC3], [0xD1]),
    ([0xC3, 0x153], [0xDC]), ([0xC2, 0xBF], [0xBF]), ([0xC2, 0xA1], [0xA1]),
    ([0xE2, 0x201A, 0xAC], [0x20AC]), ([0xC3, 0x201A], [0xC2]), ([0xC3, 0x192], [0xC3]),
    ([0xC3, 0x201E], [0xC4]), ([0xC3, 0x2026], [0xC5]), ([0xC3, 0x2020], [0xC6]),
    ([0xC3, 0x2021], [0xC7]), ([0xC3, 0x2C6], [0xC8]), ([0xC3, 0x160], [0xCA]),
    ([0xC3, 0x2039], [0xCB]), ([0xC3, 0x152], [0xCC]), ([0xC3, 0x17D], [0xCE]),
    ([0xC3], [0xD2]), ([0xC3, 0x22], [0xD4]), ([0xC3, 0x2022], [0xD5]),
    ([0xC3, 0x2013], [0xD6]), ([0xC3, 0x2014], [0xD7]), ([0xC3, 0x2DC], [0xD8]),
    ([0xC3, 0x2122], [0xD9]), ([0xC3, 0x203A], [0xDB]), ([0xC3, 0x17E], [0xDE]),
    ([0xC3, 0x178], [0xDF]), ([0xC3, 0xA2], [0xE2]), ([0xC3, 0xA5], [0xE5]),
    ([0xC3, 0xA6], [0xE6]), ([0xC3, 0xA8], [0xE8]), ([0xC3, 0xAC], [0xEC]),
    ([0xC3, 0xB0], [0xF0]), ([0xC3, 0xB2], [0xF2]), ([0xC3, 0xB5], [0xF5]),
    ([0xC3, 0xB7], [0xF7]), ([0xC3, 0xB8], [0xF8]), ([0xC3, 0xBB], [0xFB])]"

definition correcciones :: "(str \<times> str) list" where
  \<comment> \<open>the dict the display builds: a repeated key keeps the place of its first
      occurrence and takes the value of its last one\<close>
  "correcciones = foldl (\<lambda>d (k, v). AList.update k v d) [] correcciones_literal"

definition aplicar_correcciones :: "(str \<times> str) list \<Rightarrow> str \<Rightarrow> str" where
  \<comment> \<open>\<open>for mal, bien in correcciones.items(): texto = texto.replace(mal, bien)\<close>\<close>
  "aplicar_correcciones tabla texto = foldl (\<lambda>t (mal, bien). replace mal bien t) texto tabla"

definition limpiar_texto :: "(str \<Rightarrow> str option) \<Rightarrow> str \<Rightarrow> str" where
  \<comment> \<open>\<open>_limpiar_texto\<close>. The first argument is \<open>unicodedata.normalize('NFKC', \<cdot>)\<close> of the
      standard library, \<open>None\<close> when it raises (the source then keeps the text).\<close>
  "limpiar_texto nfkc texto =
     (if texto = [] then []
      else
        let t1 = aplicar_correcciones correcciones texto;
            t2 = (case nfkc t1 of None \<Rightarrow> t1 | Some t \<Rightarrow> t);
            t3 = filter (\<lambda>c. \<not> es_control c) t2;
            t4 = filter (\<lambda>c. c \<noteq> 0xFFFD) t3
        in strip (sub_espacios False t4))"

fun contiene :: "str \<Rightarrow> str \<Rightarrow> bool" where
  \<comment> \<open>\<open>old in s\<close> on strings: \<open>old\<close> occurs in \<open>s\<close> as a contiguous run\<close>
  "contiene old [] = (old = [])"
| "contiene old (c # cs) = (take (length old) (c # cs) = old \<or> contiene old cs)"

definition sin_claves :: "(str \<times> str) list \<Rightarrow> str \<Rightarrow> bool" where
  \<comment> \<open>no key of the table occurs in the text\<close>
  "sin_claves tabla t = list_all (\<lambda>(k, v). \<not> contiene k t) tabla"

definition nfkc_inerte :: "str \<Rightarrow> str option" where
  \<comment> \<open>the normaliser on text that is already in NFKC form, which it returns as it is;
      it stands for \<open>unicodedata.normalize\<close> only at such text\<close>
  "nfkc_inerte t = Some t"

fun bien_espaciado :: "bool \<Rightarrow> str \<Rightarrow> bool" where
  \<comment> \<open>every whitespace code point is a single U+0020 between two words; with the
      flag set the text does not start with whitespace either\<close>
  "bien_espaciado b [] = True"
| "bien_espaciado b (c # cs) =
     (if es_espacio c then \<not> b \<and> c = 32 \<and> bien_espaciado True cs
      else bien_espaciado False cs)"

definition cuerpo_limpio :: "str \<Rightarrow> str" where
  \<comment> \<open>steps 3 and 4 of \<open>_limpiar_texto\<close> on their own\<close>
  "cuerpo_limpio t2 =
     strip (sub_espacios False
       (filter (\<lambda>c. c \<noteq> 0xFFFD) (filter (\<lambda>c. \<not> es_control c) t2)))"

definition aplicar_una :: "str \<times> str \<Rightarrow> str \<Rightarrow> str" where
  \<comment> \<open>one turn of the loop over the table\<close>
  "aplicar_una e t = replace (fst e) (snd e) t"

definition aplicar_sin_C3 :: "str \<times> str \<Rightarrow> str \<Rightarrow> str" where
  \<comment> \<open>the same turn, confined to the texts without U+00C3\<close>
  "aplicar_sin_C3 e t = (if 0xC3 \<in> set t then t else aplicar_una e t)"

definition activas :: "(str \<times> str) list" where
  \<comment> \<open>the entries of the table whose key has no U+00C3\<close>
  "activas = [([0xC2, 0xBF], [0xBF]), ([0xC2, 0xA1], [0xA1]), ([0xE2, 0x201A, 0xAC], [0x20AC])]"

section \<open>The environment of a run\<close>

text \<open>
  What the program reads from outside itself is gathered in one record: the functions of
  the standard library it calls (\<open>urllib.parse\<close>, \<open>unicodedata\<close>, the built-in
  \<open>hash\<close>), the network, the clock, the disk and the choice that \<open>set.pop\<close> makes.
  Every theorem below holds for every environment, unless it says otherwise. A request
  to the network carries the moment at which it is made, so the same URL may answer
  differently at two moments.
\<close>

datatype error = ValueError

record parse_result =
  scheme :: str
  netloc :: str
  path :: str

record soup =
  title :: "str option option"
    \<comment> \<open>\<open>soup.title\<close> and its \<open>.string\<close>, each of which may be \<open>None\<close>\<close>
  select_one :: "str \<Rightarrow> str option"
    \<comment> \<open>\<open>get_text()\<close> of the first element matching a selector, taken after the
        \<open>script\<close>, \<open>style\<close>, \<open>nav\<close>, \<open>footer\<close>, \<open>aside\<close>, \<open>header\<close> and \<open>form\<close>
        elements below it are removed\<close>
  body :: "str option"
    \<comment> \<open>the same for the \<open>body\<close> element\<close>
  meta_description :: "str option option"
    \<comment> \<open>the \<open>meta\<close> element named \<open>description\<close> and its \<open>content\<close> attribute\<close>
  hrefs :: "str list"
    \<comment> \<open>the \<open>href\<close> of every \<open>a\<close> element that has one, in document order\<close>

record consulta =
  documents :: "str list"
  metadatas :: "(str \<times> str) list list"
  distances :: "real list"

record entorno =
  urlparse :: "str \<Rightarrow> parse_result option"
    \<comment> \<open>\<open>None\<close> when \<open>urlparse\<close> raises \<open>ValueError\<close>\<close>
  urljoin :: "str \<Rightarrow> str \<Rightarrow> str option"
    \<comment> \<open>\<open>None\<close> when \<open>urljoin\<close> raises\<close>
  normalize_NFKC :: "str \<Rightarrow> str option"
  hash :: "str \<Rightarrow> int"
    \<comment> \<open>the built-in \<open>hash\<close> on strings, as the running interpreter computes it\<close>
  obtener_contenido :: "nat \<Rightarrow> str \<Rightarrow> soup option"
    \<comment> \<open>\<open>_obtener_contenido\<close>: the parsed answer to a request made at a moment, \<open>None\<close>
        on every failure of the network or of the status\<close>
  now :: "nat \<Rightarrow> str"
    \<comment> \<open>\<open>datetime.now().strftime("%Y-%m-%d %H:%M:%S")\<close> at a moment of a crawl\<close>
  pop :: "nat \<Rightarrow> str set \<Rightarrow> str"
    \<comment> \<open>the element \<open>set.pop\<close> removes from the frontier at a moment\<close>
  fecha :: str
    \<comment> \<open>the timestamp taken by a registry or indexing operation\<close>
  escribir_ok :: "str \<Rightarrow> bool"
    \<comment> \<open>whether writing the named file and renaming it over the old one succeeds\<close>
  query :: "str \<Rightarrow> int \<Rightarrow> consulta option"
    \<comment> \<open>\<open>collection.query\<close>: the lists for the one query text, \<open>None\<close> when it raises\<close>

definition pop_valido :: "entorno \<Rightarrow> bool" where
  \<comment> \<open>\<open>set.pop\<close> returns a member of the set it is applied to\<close>
  "pop_valido env \<longleftrightarrow> (\<forall>t S. finite S \<and> S \<noteq> {} \<longrightarrow> pop env t S \<in> S)"

section \<open>Link validation and harvesting\<close>

definition lower :: "str \<Rightarrow> str" where
  \<comment> \<open>\<open>str.lower\<close> on the letters A to Z; the other code points are kept, which does
      not change whether one of the ASCII extensions below occurs\<close>
  "lower s = map (\<lambda>c. if 65 \<le> c \<and> c \<le> 90 then c + 32 else c) s"

definition extensiones :: "str list" where
  "extensiones = map lit [''.pdf'', ''.jpg'', ''.png'', ''.zip'', ''.exe'', ''.dmg'']"

definition es_url_valida :: "entorno \<Rightarrow> str \<Rightarrow> str \<Rightarrow> bool" where
  "es_url_valida env url dominio_base =
     (case urlparse env url of
        None \<Rightarrow> False
      | Some parsed \<Rightarrow>
          if scheme parsed = [] \<or> netloc parsed = [] then False
          else (case urlparse env dominio_base of
                  None \<Rightarrow> False
                | Some base \<Rightarrow>
                    if netloc parsed \<noteq> netloc base then False
                    else if list_ex (\<lambda>ext. contiene ext (lower url)) extensiones then False
                    else True))"

fun split_sep :: "nat \<Rightarrow> str \<Rightarrow> str list" where
  \<comment> \<open>\<open>s.split(sep)\<close> for a separator of one code point\<close>
  "split_sep sep [] = [[]]"
| "split_sep sep (c # cs) =
     (if c = sep then [] # split_sep sep cs
      else (case split_sep sep cs of [] \<Rightarrow> [[c]] | w # ws \<Rightarrow> (c # w) # ws))"

definition enlace :: "entorno \<Rightarrow> str \<Rightarrow> str \<Rightarrow> str \<Rightarrow> str option" where
  \<comment> \<open>the body of the loop of \<open>_procesar_enlaces\<close> for one \<open>href\<close>: the URL it adds,
      \<open>None\<close> when it adds none (also when an exception makes it \<open>continue\<close>)\<close>
  "enlace env url dominio_base h =
     (case split_sep 35 h of
        [] \<Rightarrow> None
      | href # _ \<Rightarrow>
          (case urljoin env url href of
             None \<Rightarrow> None
           | Some full_url \<Rightarrow>
               if es_url_valida env full_url dominio_base then Some full_url else None))"

definition procesar_enlaces :: "entorno \<Rightarrow> str \<Rightarrow> soup \<Rightarrow> str \<Rightarrow> str set" where
  "procesar_enlaces env url sp dominio_base =
     set (List.map_filter (enlace env url dominio_base) (hrefs sp))"

section \<open>Extraction of one page\<close>

record pagina =
  url :: str
  titulo :: str
  contenido :: str
  descripcion :: str
  ultima_actualizacion :: str

definition selectors :: "str list" where
  "selectors = map lit [''main'', ''article'', ''.content'', ''.documentation'',
     ''.doc-content'', ''.markdown-body'', ''.page-content'',
     ''#content'', ''#main-content'', ''.body'']"

fun primer_selector :: "(str \<Rightarrow> str option) \<Rightarrow> str list \<Rightarrow> str option" where
  "primer_selector sel [] = None"
| "primer_selector sel (s # ss) =
     (case sel s of Some text \<Rightarrow> Some text | None \<Rightarrow> primer_selector sel ss)"

definition extraer_contenido_principal :: "entorno \<Rightarrow> soup \<Rightarrow> str option" where
  "extraer_contenido_principal env sp =
     (case primer_selector (select_one sp) selectors of
        Some text \<Rightarrow> Some (limpiar_texto (normalize_NFKC env) text)
      | None \<Rightarrow>
          (case body sp of
             Some text \<Rightarrow> Some (limpiar_texto (normalize_NFKC env) text)
           | None \<Rightarrow> None))"

definition extraer_titulo :: "entorno \<Rightarrow> soup \<Rightarrow> str \<Rightarrow> str option" where
  \<comment> \<open>the title of \<open>extraer_pagina_individual\<close>; \<open>None\<close> when \<open>urlparse\<close> raises, which
      the handler of that function turns into its result \<open>None\<close>\<close>
  "extraer_titulo env sp u =
     (let t = (case title sp of
                 None \<Rightarrow> []
               | Some s \<Rightarrow> limpiar_texto (normalize_NFKC env) (case s of None \<Rightarrow> [] | Some x \<Rightarrow> x))
      in if t \<noteq> [] then Some t
         else (case urlparse env u of
                 None \<Rightarrow> None
               | Some p \<Rightarrow>
                   (case rev (split_sep 47 (path p)) of
                      [] \<Rightarrow> None
                    | seg # _ \<Rightarrow> Some (if seg \<noteq> [] then seg else u))))"

definition extraer_pagina_individual :: "entorno \<Rightarrow> nat \<Rightarrow> str \<Rightarrow> pagina option" where
  "extraer_pagina_individual env t u =
     (case obtener_contenido env t u of
        None \<Rightarrow> None
      | Some sp \<Rightarrow>
          (case extraer_titulo env sp u of
             None \<Rightarrow> None
           | Some tit \<Rightarrow>
               (case extraer_contenido_principal env sp of
                  None \<Rightarrow> None
                | Some content \<Rightarrow>
                    if content = [] \<or> length (split content) < 20 then None
                    else Some \<lparr>url = u, titulo = tit, contenido = content,
                      descripcion =
                        (case meta_description sp of
                           None \<Rightarrow> []
                         | Some c \<Rightarrow>
                             limpiar_texto (normalize_NFKC env)
                               (case c of None \<Rightarrow> [] | Some x \<Rightarrow> x)),
                      ultima_actualizacion = now env t\<rparr>)))"

section \<open>The crawl\<close>

record estado =
  to_visit :: "str set"
  visited :: "str set"
  results :: "pagina list"
  reloj :: nat

definition sigue :: "int \<Rightarrow> estado \<Rightarrow> bool" where
  \<comment> \<open>the condition of the \<open>while\<close> loop\<close>
  "sigue max_paginas s \<longleftrightarrow>
     to_visit s \<noteq> {} \<and> (max_paginas = 0 \<or> int (length (results s)) < max_paginas)"

definition paso :: "entorno \<Rightarrow> str \<Rightarrow> int \<Rightarrow> estado \<Rightarrow> estado" where
  \<comment> \<open>one turn of the loop; the clock advances at the pop and at each request\<close>
  "paso env dominio_base max_paginas s =
     (let current_url = pop env (reloj s) (to_visit s);
          s1 = s\<lparr>to_visit := to_visit s - {current_url}, reloj := reloj s + 1\<rparr>
      in if current_url \<in> visited s1 then s1
         else
           let s2 = s1\<lparr>visited := insert current_url (visited s1)\<rparr> in
           (case extraer_pagina_individual env (reloj s2) current_url of
              None \<Rightarrow> s2\<lparr>reloj := reloj s2 + 1\<rparr>
            | Some page_data \<Rightarrow>
                let s3 = s2\<lparr>results := results s2 @ [page_data], reloj := reloj s2 + 1\<rparr> in
                if max_paginas = 0 \<or> int (length (results s3)) < max_paginas then
                  (case obtener_contenido env (reloj s3) current_url of
                     None \<Rightarrow> s3\<lparr>reloj := reloj s3 + 1\<rparr>
                   | Some sp \<Rightarrow>
                       s3\<lparr>to_visit := to_visit s3 \<union>
                            (procesar_enlaces env current_url sp dominio_base - visited s3),
                          reloj := reloj s3 + 1\<rparr>)
                else s3))"

partial_function (option) bucle :: "entorno \<Rightarrow> str \<Rightarrow> int \<Rightarrow> estado \<Rightarrow> estado option" where
  "bucle env dominio_base max_paginas s =
     (if sigue max_paginas s then bucle env dominio_base max_paginas (paso env dominio_base max_paginas s)
      else Some s)"

definition rastrear_sitio_web :: "entorno \<Rightarrow> str \<Rightarrow> int \<Rightarrow> (error + pagina list) option" where
  \<comment> \<open>\<open>None\<close>: the loop never ends; \<open>Inl\<close>: \<open>urlparse\<close> raises on the seed\<close>
  "rastrear_sitio_web env url_inicio max_paginas =
     (case urlparse env url_inicio of
        None \<Rightarrow> Some (Inl ValueError)
      | Some p \<Rightarrow>
          map_option (\<lambda>s. Inr (results s))
            (bucle env (netloc p) max_paginas
               \<lparr>to_visit = {url_inicio}, visited = {}, results = [], reloj = 0\<rparr>))"

definition medida :: "int \<Rightarrow> (estado \<times> estado) set" where
  \<comment> \<open>the order in which a bounded crawl descends: pages still allowed, then frontier size\<close>
  "medida m = inv_image (less_than <*lex*> less_than)
     (\<lambda>s. (nat (m - int (length (results s))), card (to_visit s)))"

section \<open>Search\<close>

record resultado =
  r_titulo :: str
  r_contenido :: str
  r_fuente :: str
  r_url :: str
  puntuacion :: real

fun formatear :: "str list \<Rightarrow> (str \<times> str) list list \<Rightarrow> real list \<Rightarrow> resultado list option" where
  \<comment> \<open>the loop of \<open>buscar_en_todos_sitios\<close> over the documents of the answer; \<open>None\<close>
      when an index or a key is missing, which raises\<close>
  "formatear [] ms ds = Some []"
| "formatear (doc # docs) (m # ms) (d # ds) =
     (case (map_of m (lit ''titulo''), map_of m (lit ''fuente''), map_of m (lit ''url'')) of
        (Some t, Some f, Some u) \<Rightarrow>
          map_option
            (\<lambda>rs. \<lparr>r_titulo = t,
                    r_contenido = (if length doc > 500 then take 500 doc @ lit ''...'' else doc),
                    r_fuente = f, r_url = u, puntuacion = 1 - d\<rparr> # rs)
            (formatear docs ms ds)
      | _ \<Rightarrow> None)"
| "formatear (doc # docs) ms ds = None"

definition buscar_en_todos_sitios :: "entorno \<Rightarrow> str \<Rightarrow> int \<Rightarrow> resultado list" where
  \<comment> \<open>every exception is caught and gives the empty list\<close>
  "buscar_en_todos_sitios env consulta n_resultados =
     (case query env consulta n_resultados of
        None \<Rightarrow> []
      | Some res \<Rightarrow>
          (case formatear (documents res) (metadatas res) (distances res) of
             None \<Rightarrow> []
           | Some formatted_results \<Rightarrow> formatted_results))"

record resultado_chromadb =
  c_contenido :: str
  c_titulo :: str
  c_url :: str
  c_fuente :: str
  c_idioma :: str
  c_categoria :: str
  c_descripcion :: str
  c_ultima_actualizacion :: str
  c_puntuacion :: real

definition get :: "(str \<times> str) list \<Rightarrow> string \<Rightarrow> str \<Rightarrow> str" where
  \<comment> \<open>\<open>metadata.get(key, default)\<close>\<close>
  "get m k d = (case map_of m (lit k) of None \<Rightarrow> d | Some v \<Rightarrow> v)"

fun convertir :: "str list \<Rightarrow> (str \<times> str) list list \<Rightarrow> real list \<Rightarrow> resultado_chromadb list" where
  \<comment> \<open>the loop of \<open>convertir_resultados_chromadb\<close> (app.py); the two other lists are
      read at the index of the document, with a default past their end\<close>
  "convertir [] ms ds = []"
| "convertir (doc # docs) ms ds =
     (let metadata = (case ms of [] \<Rightarrow> [] | m # _ \<Rightarrow> m);
          distance = (case ds of [] \<Rightarrow> 1 | d # _ \<Rightarrow> d)
      in \<lparr>c_contenido = doc,
           c_titulo = get metadata ''titulo'' (lit ''Sin t'' @ [0xED] @ lit ''tulo''),
           c_url = get metadata ''url'' [],
           c_fuente = get metadata ''fuente'' (lit ''Desconocida''),
           c_idioma = get metadata ''idioma'' (lit ''es''),
           c_categoria = get metadata ''categoria'' (lit ''General''),
           c_descripcion = get metadata ''descripcion'' [],
           c_ultima_actualizacion = get metadata ''ultima_actualizacion'' (lit ''Desconocido''),
           c_puntuacion = max 0 (1 - distance)\<rparr>
         # convertir docs (tl ms) (tl ds))"

definition convertir_resultados_chromadb :: "consulta \<Rightarrow> resultado_chromadb list" where
  \<comment> \<open>a list that is missing from the answer is the empty list here\<close>
  "convertir_resultados_chromadb res = convertir (documents res) (metadatas res) (distances res)"

section \<open>The source registry\<close>

text \<open>
  A source is one of the dicts that the class builds, with its seven keys; the registry
  is the list \<open>self.sources\<close>, the side table the dict \<open>self.indexados\<close>, and the two
  files are what was last written to them.
\<close>

record fuente =
  fuente_url :: str
    \<comment> \<open>the key \<open>url\<close>\<close>
  nombre :: str
  fuente_descripcion :: str
    \<comment> \<open>the key \<open>descripcion\<close>\<close>
  categoria :: str
  fecha_agregada :: str
  estado :: str
  idioma :: str

record base =
  sources :: "fuente list"
  indexados :: "str \<rightharpoonup> str"
  sources_file :: "fuente list"
    \<comment> \<open>what \<open>fuentes.json\<close> holds\<close>
  indexados_file :: "str \<rightharpoonup> str"
    \<comment> \<open>what \<open>indexados.json\<close> holds\<close>

datatype respuesta =
  Exito str
  | Fallo str
  | Fallo_excepcion error
    \<comment> \<open>\<open>{"exito": False, "mensaje": f"Error: {str(e)}"}\<close> of the handlers\<close>

fun exito :: "respuesta \<Rightarrow> bool" where
  "exito (Exito m) = True"
| "exito (Fallo m) = False"
| "exito (Fallo_excepcion e) = False"

definition guardar_fuentes :: "entorno \<Rightarrow> base \<Rightarrow> base" where
  \<comment> \<open>\<open>_guardar_fuentes()\<close>: a failed write is logged and leaves the file as it was\<close>
  "guardar_fuentes env s =
     (if escribir_ok env (lit ''fuentes.json'') then s\<lparr>sources_file := sources s\<rparr> else s)"

definition guardar_indexados :: "entorno \<Rightarrow> base \<Rightarrow> base" where
  "guardar_indexados env s =
     (if escribir_ok env (lit ''indexados.json'') then s\<lparr>indexados_file := indexados s\<rparr> else s)"

definition agregar_fuente ::
  "entorno \<Rightarrow> str \<Rightarrow> str \<Rightarrow> str \<Rightarrow> str \<Rightarrow> str \<Rightarrow> base \<Rightarrow> respuesta \<times> base" where
  "agregar_fuente env u nom descr cat idi s =
     (case urlparse env u of
        None \<Rightarrow> (Fallo_excepcion ValueError, s)
      | Some parsed_url \<Rightarrow>
          if scheme parsed_url = [] \<or> netloc parsed_url = []
            then (Fallo (lit ''URL inv'' @ [0xE1] @ lit ''lida''), s)
          else if list_ex (\<lambda>f. fuente_url f = u) (sources s)
            then (Fallo (lit ''La fuente ya existe''), s)
          else
            let nueva_fuente = \<lparr>fuente_url = u, nombre = nom, fuente_descripcion = descr,
                  categoria = cat, fecha_agregada = take 10 (fecha env),
                  estado = lit ''activo'', idioma = idi\<rparr>
            in (Exito (lit ''Fuente agregada exitosamente''),
                guardar_fuentes env (s\<lparr>sources := sources s @ [nueva_fuente]\<rparr>)))"

fun quitar :: "str \<Rightarrow> fuente list \<Rightarrow> fuente list option" where
  \<comment> \<open>the list without its first entry of the given URL, \<open>None\<close> when there is none\<close>
  "quitar u [] = None"
| "quitar u (f # fs) = (if fuente_url f = u then Some fs else map_option ((#) f) (quitar u fs))"

definition eliminar_fuente :: "entorno \<Rightarrow> str \<Rightarrow> base \<Rightarrow> respuesta \<times> base" where
  "eliminar_fuente env u s =
     (case quitar u (sources s) of
        None \<Rightarrow> (Fallo (lit ''Fuente no encontrada''), s)
      | Some fs \<Rightarrow>
          let s1 = guardar_fuentes env (s\<lparr>sources := fs\<rparr>);
              s2 = (if indexados s1 u \<noteq> None
                    then guardar_indexados env (s1\<lparr>indexados := (indexados s1)(u := None)\<rparr>)
                    else s1)
          in (Exito (lit ''Fuente eliminada exitosamente''), s2))"

section \<open>Ingestion and indexing of a source\<close>

definition termina_en :: "str \<Rightarrow> str \<Rightarrow> bool" where
  \<comment> \<open>\<open>s.endswith(suf)\<close>\<close>
  "termina_en suf s \<longleftrightarrow> length suf \<le> length s \<and> drop (length s - length suf) s = suf"

definition detectar_idioma :: "str \<Rightarrow> str" where
  "detectar_idioma u =
     (if contiene (lit ''/es/'') u \<or> termina_en (lit ''.es'') u then lit ''es''
      else if contiene (lit ''/en/'') u \<or> termina_en (lit ''.com'') u then lit ''en''
      else lit ''es'')"

fun str_nat :: "nat \<Rightarrow> str" where
  \<comment> \<open>\<open>str\<close> of a non-negative integer: its decimal digits\<close>
  "str_nat n = (if n < 10 then [48 + n] else str_nat (n div 10) @ [48 + n mod 10])"

declare str_nat.simps [simp del]

definition doc_id :: "entorno \<Rightarrow> str \<Rightarrow> str" where
  \<comment> \<open>\<open>f"doc_{abs(hash(doc['url']))}"\<close>\<close>
  "doc_id env u = lit ''doc_'' @ str_nat (nat \<bar>hash env u\<bar>)"

type_synonym lote = "str list \<times> str list \<times> (str \<times> str) list list"
  \<comment> \<open>the arguments \<open>ids\<close>, \<open>documents\<close> and \<open>metadatas\<close> of one call of \<open>collection.add\<close>\<close>

fun armar_lote :: "entorno \<Rightarrow> pagina list \<Rightarrow> error + lote" where
  \<comment> \<open>the three lists built from one batch; \<open>urlparse\<close> is called outside the
      \<open>try\<close>, so its exception leaves \<open>agregar_a_base_vectorial\<close>\<close>
  "armar_lote env [] = Inr ([], [], [])"
| "armar_lote env (doc # batch) =
     (case urlparse env (url doc) of
        None \<Rightarrow> Inl ValueError
      | Some p \<Rightarrow>
          (case armar_lote env batch of
             Inl e \<Rightarrow> Inl e
           | Inr (ids, docs, metas) \<Rightarrow>
               Inr (doc_id env (url doc) # ids, contenido doc # docs,
                    [(lit ''url'', url doc), (lit ''titulo'', titulo doc),
                     (lit ''fuente'', netloc p), (lit ''descripcion'', descripcion doc),
                     (lit ''ultima_actualizacion'', ultima_actualizacion doc),
                     (lit ''idioma'', detectar_idioma (url doc))] # metas)))"

fun partir :: "nat \<Rightarrow> nat \<Rightarrow> 'a list \<Rightarrow> 'a list list" where
  \<comment> \<open>\<open>[documentos[i:i+b] for i in range(0, len(documentos), b)]\<close> for \<open>b > 0\<close>; the
      first argument bounds the number of batches\<close>
  "partir 0 b xs = []"
| "partir (Suc k) b xs = (if xs = [] then [] else take b xs # partir k b (drop b xs))"

fun agregar_lotes :: "entorno \<Rightarrow> pagina list list \<Rightarrow> lote list \<times> error option" where
  \<comment> \<open>the calls of \<open>collection.add\<close> made, in order, and the exception that ended the
      loop, if one did; a call that the collaborator refuses is logged and the loop goes on\<close>
  "agregar_lotes env [] = ([], None)"
| "agregar_lotes env (batch # rest) =
     (case armar_lote env batch of
        Inl e \<Rightarrow> ([], Some e)
      | Inr l \<Rightarrow> (case agregar_lotes env rest of (ls, e) \<Rightarrow> (l # ls, e)))"

definition agregar_a_base_vectorial :: "entorno \<Rightarrow> pagina list \<Rightarrow> lote list \<times> error option" where
  "agregar_a_base_vectorial env documentos =
     agregar_lotes env (partir (length documentos) 100 documentos)"

datatype respuesta_indexar = Indexado nat | No_indexado

definition indexar_fuente ::
  "entorno \<Rightarrow> str \<Rightarrow> int \<Rightarrow> int option \<Rightarrow> base
     \<Rightarrow> ((error + respuesta_indexar) \<times> base \<times> lote list) option" where
  \<comment> \<open>the result (an exception that leaves the function, or the dict it returns), the
      new state and the calls of \<open>collection.add\<close> made; \<open>None\<close> when the crawl never ends\<close>
  "indexar_fuente env u max_paginas profundidad s =
     (let m = (case profundidad of None \<Rightarrow> max_paginas | Some p \<Rightarrow> p) in
      case rastrear_sitio_web env u m of
        None \<Rightarrow> None
      | Some (Inl e) \<Rightarrow> Some (Inl e, s, [])
      | Some (Inr documentos) \<Rightarrow>
          if documentos \<noteq> [] then
            (case agregar_a_base_vectorial env documentos of
               (lotes, Some e) \<Rightarrow> Some (Inl e, s, lotes)
             | (lotes, None) \<Rightarrow>
                 Some (Inr (Indexado (length documentos)),
                       guardar_indexados env (s\<lparr>indexados := (indexados s)(u \<mapsto> fecha env)\<rparr>),
                       lotes))
          else Some (Inr No_indexado, s, []))"

section \<open>An example site\<close>

text \<open>
  One page at \<open>https://example.com/\<close>, with a body of twenty words and one link to
  \<open>/guia#intro\<close>. The tables give the values of \<open>urlparse\<close> and \<open>urljoin\<close> at the
  arguments that occur in a crawl of this site; no other argument occurs there.
\<close>

definition url_inicio_ej :: str where
  "url_inicio_ej = lit ''https://example.com/''"

definition url_guia_ej :: str where
  "url_guia_ej = lit ''https://example.com/guia''"

definition texto_ej :: str where
  "texto_ej = lit ''a b c d e f g h i j k l m n o p q r s t''"

definition soup_ej :: soup where
  "soup_ej = \<lparr>title = Some (Some (lit ''Inicio'')), select_one = (\<lambda>sel. None),
     body = Some texto_ej, meta_description = None, hrefs = [lit ''/guia#intro'']\<rparr>"

definition urlparse_ej :: "str \<Rightarrow> parse_result option" where
  "urlparse_ej u =
     (if u = url_inicio_ej
        then Some \<lparr>scheme = lit ''https'', netloc = lit ''example.com'', path = lit ''/''\<rparr>
      else if u = url_guia_ej
        then Some \<lparr>scheme = lit ''https'', netloc = lit ''example.com'', path = lit ''/guia''\<rparr>
      else if u = lit ''https://example.com/notas.pdf.html''
        then Some \<lparr>scheme = lit ''https'', netloc = lit ''example.com'',
                   path = lit ''/notas.pdf.html''\<rparr>
      else if u = lit ''example.com''
        then Some \<lparr>scheme = [], netloc = [], path = lit ''example.com''\<rparr>
      else None)"

definition urljoin_ej :: "str \<Rightarrow> str \<Rightarrow> str option" where
  "urljoin_ej b r = (if b = url_inicio_ej \<and> r = lit ''/guia'' then Some url_guia_ej else None)"

definition env_ej :: entorno where
  "env_ej = \<lparr>urlparse = urlparse_ej, urljoin = urljoin_ej, normalize_NFKC = nfkc_inerte,
     hash = (\<lambda>s. int (sum_list s)),
     obtener_contenido = (\<lambda>t u. if u = url_inicio_ej then Some soup_ej else None),
     now = (\<lambda>t. lit ''2024-01-01 00:00:00''), pop = (\<lambda>t S. Min S),
     fecha = lit ''2024-01-01 00:00:00'', escribir_ok = (\<lambda>f. True),
     query = (\<lambda>q k. None)\<rparr>"

definition pagina_ej :: pagina where
  "pagina_ej = \<lparr>url = url_inicio_ej, titulo = lit ''Inicio'', contenido = texto_ej,
     descripcion = [], ultima_actualizacion = lit ''2024-01-01 00:00:00''\<rparr>"

text \<open>The same site when its one page has a body of three words.\<close>

definition soup_corta :: soup where
  "soup_corta = soup_ej\<lparr>body := Some (lit ''solo tres palabras'')\<rparr>"

definition env_corta :: entorno where
  "env_corta = env_ej\<lparr>obtener_contenido :=
     (\<lambda>t u. if u = url_inicio_ej then Some soup_corta else None)\<rparr>"

text \<open>
  An interpreter process whose built-in \<open>hash\<close> differs: Python salts the hash of a
  \<open>str\<close> anew in every process, unless \<open>PYTHONHASHSEED\<close> fixes the salt.
\<close>

definition env_otro_proceso :: entorno where
  "env_otro_proceso = env_ej\<lparr>hash := (\<lambda>s. int (sum_list s) + 1)\<rparr>"

text \<open>An answer of the collaborator with one document at distance 1.5.\<close>

definition consulta_ej :: consulta where
  "consulta_ej = \<lparr>documents = [texto_ej],
     metadatas = [[(lit ''url'', url_inicio_ej), (lit ''titulo'', lit ''Inicio''),
                   (lit ''fuente'', lit ''example.com'')]],
     distances = [3 / 2]\<rparr>"

definition env_busqueda :: entorno where
  "env_busqueda = env_ej\<lparr>query := (\<lambda>q k. Some consulta_ej)\<rparr>"

text \<open>A registry with one source, never indexed.\<close>

definition fuente_ej :: fuente where
  "fuente_ej = \<lparr>fuente_url = url_inicio_ej, nombre = lit ''Ejemplo'', fuente_descripcion = [],
     categoria = lit ''General'', fecha_agregada = lit ''2024-01-01'', estado = lit ''activo'',
     idioma = lit ''es''\<rparr>"

definition base_ej :: base where
  "base_ej = \<lparr>sources = [fuente_ej], indexados = Map.empty,
     sources_file = [fuente_ej], indexados_file = Map.empty\<rparr>"

text \<open>
  A registry with two sources, both indexed, and a registry whose file holds the same
  URL twice (\<open>_cargar_fuentes\<close> takes the list of the file as it is).
\<close>

definition fuente_guia_ej :: fuente where
  "fuente_guia_ej = \<lparr>fuente_url = url_guia_ej, nombre = lit ''Guia'', fuente_descripcion = [],
     categoria = lit ''General'', fecha_agregada = lit ''2024-01-02'', estado = lit ''activo'',
     idioma = lit ''es''\<rparr>"

definition base_dos_ej :: base where
  "base_dos_ej = \<lparr>sources = [fuente_ej, fuente_guia_ej],
     indexados = [url_inicio_ej \<mapsto> lit ''2024-01-01 00:00:00'', url_guia_ej \<mapsto> lit ''2024-01-02 00:00:00''],
     sources_file = [fuente_ej, fuente_guia_ej],
     indexados_file = [url_inicio_ej \<mapsto> lit ''2024-01-01 00:00:00'', url_guia_ej \<mapsto> lit ''2024-01-02 00:00:00'']\<rparr>"

definition base_duplicada_ej :: base where
  "base_duplicada_ej = \<lparr>sources = [fuente_ej, fuente_ej\<lparr>nombre := lit ''Copia''\<rparr>],
     indexados = Map.empty,
     sources_file = [fuente_ej, fuente_ej\<lparr>nombre := lit ''Copia''\<rparr>],
     indexados_file = Map.empty\<rparr>"

text \<open>The calls of \<open>collection.add\<close> that ingesting the one page of the site makes.\<close>

definition lotes_ej :: "lote list" where
  "lotes_ej = fst (agregar_a_base_vectorial env_ej [pagina_ej])"

definition lotes_otro_ej :: "lote list" where
  "lotes_otro_ej = fst (agregar_a_base_vectorial env_otro_proceso [pagina_ej])"

section \<open>Properties of the text normaliser\<close>

lemma correcciones_eq: "correcciones = [
    ([0xC3, 0xA1], [0xE1]), ([0xC3, 0xA9], [0xE9]), ([0xC3, 0xAD], [0xED]),
    ([0xC3, 0xB3], [0xF3]), ([0xC3, 0xBA], [0xFA]), ([0xC3, 0xB1], [0xF1]),
    ([0xC3, 0xBC], [0xFC]), ([0xC3, 0xA3], [0xE3]), ([0xC3, 0xB6], [0xF6]),
    ([0xC3, 0xA4], [0xE4]), ([0xC3, 0xA2], [0xE2]), ([0xC3, 0xBB], [0xFB]),
    ([0xC3, 0xAE], [0xEE]), ([0xC3, 0xA8], [0xE8]), ([0xC3, 0xAA], [0xEA]),
    ([0xC3, 0xA7], [0xE7]), ([0xC3, 0x20], [0xE0]), ([0xC3, 0xB4], [0xF4]),
    ([0xC3, 0xB9], [0xF9]), ([0xC3, 0xAB], [0xEB]), ([0xC3, 0xAF], [0xEF]),
    ([0xC3, 0xBD], [0xFD]), ([0xC3, 0xBE], [0xFE]), ([0xC3, 0xBF], [0xFF]),
    ([0xC3], [0xD2]), ([0xC3, 0x2030], [0xC9]), ([0xC3, 0x22], [0xD4]),
    ([0xC3, 0x161], [0xDA]), ([0xC3, 0x153], [0xDC]), ([0xC2, 0xBF], [0xBF]),
    ([0xC2, 0xA1], [0xA1]), ([0xE2, 0x201A, 0xAC], [0x20AC]), ([0xC3, 0x201A], [0xC2]),
    ([0xC3, 0x192], [0xC3]), ([0xC3, 0x201E], [0xC4]), ([0xC3, 0x2026], [0xC5]),
    ([0xC3, 0x2020], [0xC6]), ([0xC3, 0x2021], [0xC7]), ([0xC3, 0x2C6], [0xC8]),
    ([0xC3, 0x160], [0xCA]), ([0xC3, 0x2039], [0xCB]), ([0xC3, 0x152], [0xCC]),
    ([0xC3, 0x17D], [0xCE]), ([0xC3, 0x2022], [0xD5]), ([0xC3, 0x2013], [0xD6]),
    ([0xC3, 0x2014], [0xD7]), ([0xC3, 0x2DC], [0xD8]), ([0xC3, 0x2122], [0xD9]),
    ([0xC3, 0x203A], [0xDB]), ([0xC3, 0x17E], [0xDE]), ([0xC3, 0x178], [0xDF]),
    ([0xC3, 0xA5], [0xE5]), ([0xC3, 0xA6], [0xE6]), ([0xC3, 0xAC], [0xEC]),
    ([0xC3, 0xB0], [0xF0]), ([0xC3, 0xB2], [0xF2]), ([0xC3, 0xB5], [0xF5]),
    ([0xC3, 0xB7], [0xF7]), ([0xC3, 0xB8], [0xF8])]"
  unfolding correcciones_def correcciones_literal_def by simp

lemmas evaluar_texto =
  limpiar_texto_def aplicar_correcciones_def correcciones_eq es_espacio_def es_control_def
  strip_def lit_def nfkc_inerte_def sin_claves_def

lemma replace_sin_ocurrencia: "\<not> contiene old s \<Longrightarrow> replace old new s = s"
  by (induction s) auto

lemma aplicar_sin_claves: "sin_claves tabla t \<Longrightarrow> aplicar_correcciones tabla t = t"
  unfolding aplicar_correcciones_def sin_claves_def
  by (induction tabla) (auto simp: replace_sin_ocurrencia)

lemma espacio_32: "es_espacio 32"
  by (simp add: es_espacio_def)

lemma bien_sub: "bien_espaciado b (sub_espacios b s)"
  by (induction s arbitrary: b) (auto simp: espacio_32)

lemma sub_bien: "bien_espaciado b w \<Longrightarrow> sub_espacios b w = w"
  by (induction w arbitrary: b) (auto split: if_splits)

lemma bien_flag: "bien_espaciado True w \<Longrightarrow> bien_espaciado b w"
  by (cases w) (auto split: if_splits)

lemma bien_dropWhile: "bien_espaciado b w \<Longrightarrow> bien_espaciado b (dropWhile es_espacio w)"
proof (cases w)
  case Nil
  then show ?thesis by simp
next
  case (Cons c cs)
  assume h: "bien_espaciado b w"
  show ?thesis
  proof (cases "es_espacio c")
    case False
    with h Cons show ?thesis by simp
  next
    case True
    with h Cons have t: "bien_espaciado True cs" by auto
    have "dropWhile es_espacio cs = cs"
      using t by (cases cs) (auto split: if_splits)
    with True Cons t show ?thesis by (simp add: bien_flag)
  qed
qed

lemma bien_rstrip: "bien_espaciado b w \<Longrightarrow> bien_espaciado b (rstrip w)"
  by (induction w arbitrary: b) (auto simp: Let_def split: if_splits)

lemma bien_strip: "bien_espaciado b w \<Longrightarrow> bien_espaciado b (strip w)"
  unfolding strip_def by (intro bien_rstrip bien_dropWhile)

lemma rstrip_idem: "rstrip (rstrip s) = rstrip s"
  by (induction s) (auto simp: Let_def)

lemma dropWhile_rstrip:
  "u = [] \<or> \<not> es_espacio (hd u) \<Longrightarrow> dropWhile es_espacio (rstrip u) = rstrip u"
  by (cases u) (auto simp: Let_def)

lemma strip_idem: "strip (strip s) = strip s"
proof -
  let ?u = "dropWhile es_espacio s"
  have "?u = [] \<or> \<not> es_espacio (hd ?u)"
    using hd_dropWhile[of es_espacio s] by blast
  then have "dropWhile es_espacio (rstrip ?u) = rstrip ?u"
    by (rule dropWhile_rstrip)
  then show ?thesis by (simp add: strip_def rstrip_idem)
qed

lemma set_rstrip: "set (rstrip s) \<subseteq> set s"
  by (induction s) (auto simp: Let_def split: if_splits)

lemma set_strip: "set (strip s) \<subseteq> set s"
  unfolding strip_def
  using set_rstrip[of "dropWhile es_espacio s"] set_dropWhileD[of _ es_espacio s] by blast

lemma set_sub_espacios: "set (sub_espacios b s) \<subseteq> insert 32 (set s)"
  by (induction s arbitrary: b) auto

lemma cuerpo_limpio_fijo: "cuerpo_limpio (cuerpo_limpio t) = cuerpo_limpio t"
proof -
  let ?f = "filter (\<lambda>c. c \<noteq> 0xFFFD) (filter (\<lambda>c. \<not> es_control c) t)"
  let ?y = "cuerpo_limpio t"
  have y: "?y = strip (sub_espacios False ?f)"
    by (simp add: cuerpo_limpio_def)
  have "set ?y \<subseteq> insert 32 (set ?f)"
    unfolding y
    using set_strip[of "sub_espacios False ?f"] set_sub_espacios[of False ?f] by blast
  then have ok: "\<forall>c\<in>set ?y. \<not> es_control c \<and> c \<noteq> 0xFFFD"
    by (auto simp: es_control_def)
  have f1: "filter (\<lambda>c. \<not> es_control c) ?y = ?y"
    using ok by (simp add: filter_id_conv)
  have f2: "filter (\<lambda>c. c \<noteq> 0xFFFD) ?y = ?y"
    using ok by (simp add: filter_id_conv)
  have "bien_espaciado False ?y"
    unfolding y by (intro bien_strip bien_sub)
  then have s: "sub_espacios False ?y = ?y"
    by (rule sub_bien)
  have "strip ?y = ?y"
    unfolding y by (rule strip_idem)
  then show ?thesis
    unfolding cuerpo_limpio_def[of ?y] f1 f2 s .
qed

lemma limpiar_cuerpo:
  "limpiar_texto nfkc x =
     (if x = [] then []
      else cuerpo_limpio
        (case nfkc (aplicar_correcciones correcciones x) of
           None \<Rightarrow> aplicar_correcciones correcciones x | Some t \<Rightarrow> t))"
  by (simp add: limpiar_texto_def cuerpo_limpio_def Let_def)

lemma limpiar_hola: "limpiar_texto nfkc_inerte (lit ''  hola   mundo '') = lit ''hola mundo''"
  by (simp add: evaluar_texto)

lemma sin_claves_hola: "sin_claves correcciones (lit ''hola mundo'')"
  by (simp add: evaluar_texto)

text \<open>
  Claim C4, as the spec states it: \<open>_limpiar_texto(_limpiar_texto(x)) == _limpiar_texto(x)\<close>
  for every string. It fails at the three code points U+00C2 U+00C2 U+00A1: the first
  pass replaces the one occurrence of the key U+00C2 U+00A1 and leaves U+00C2 U+00A1,
  which is again a key, so the second pass returns U+00A1. (The three code points are in
  NFKC form and none is a control or whitespace character.)
\<close>

theorem limpiar_texto_no_idempotente:
  "limpiar_texto nfkc_inerte (limpiar_texto nfkc_inerte [0xC2, 0xC2, 0xA1])
     \<noteq> limpiar_texto nfkc_inerte [0xC2, 0xC2, 0xA1]"
proof -
  have 1: "limpiar_texto nfkc_inerte [0xC2, 0xC2, 0xA1] = [0xC2, 0xA1]"
    by (simp add: evaluar_texto)
  have 2: "limpiar_texto nfkc_inerte [0xC2, 0xA1] = [0xA1]"
    by (simp add: evaluar_texto)
  show ?thesis unfolding 1 2 by simp
qed

text \<open>
  Claim C4, amended: the result \<open>y\<close> of \<open>_limpiar_texto\<close> is a fixed point of
  \<open>_limpiar_texto\<close> whenever no key of the correction table occurs in \<open>y\<close> and the
  NFKC normaliser leaves \<open>y\<close> as it is (or raises, in which case the source keeps the
  text). Removing control characters, collapsing whitespace and trimming are idempotent
  on every text.
\<close>

theorem limpiar_texto_punto_fijo:
  assumes "y = limpiar_texto nfkc x"
    and "sin_claves correcciones y"
    and "nfkc y = Some y \<or> nfkc y = None"
  shows "limpiar_texto nfkc y = y"
proof (cases "y = []")
  case True
  then show ?thesis by (simp add: limpiar_texto_def)
next
  case False
  then have xne: "x \<noteq> []"
    using assms(1) by (auto simp: limpiar_texto_def)
  obtain t where y: "y = cuerpo_limpio t"
    using assms(1) xne by (simp add: limpiar_cuerpo)
  have a: "aplicar_correcciones correcciones y = y"
    using assms(2) by (rule aplicar_sin_claves)
  have "limpiar_texto nfkc y = cuerpo_limpio y"
    using False assms(3) by (auto simp: limpiar_cuerpo a)
  also have "\<dots> = y"
    unfolding y by (rule cuerpo_limpio_fijo)
  finally show ?thesis .
qed

theorem limpiar_texto_punto_fijo_witness:
  "sin_claves correcciones (limpiar_texto nfkc_inerte (lit ''  hola   mundo ''))
   \<and> nfkc_inerte (limpiar_texto nfkc_inerte (lit ''  hola   mundo ''))
       = Some (limpiar_texto nfkc_inerte (lit ''  hola   mundo ''))
   \<and> limpiar_texto nfkc_inerte (limpiar_texto nfkc_inerte (lit ''  hola   mundo ''))
       = limpiar_texto nfkc_inerte (lit ''  hola   mundo '')"
proof -
  let ?y = "limpiar_texto nfkc_inerte (lit ''  hola   mundo '')"
  have s: "sin_claves correcciones ?y"
    unfolding limpiar_hola by (rule sin_claves_hola)
  have n: "nfkc_inerte ?y = Some ?y \<or> nfkc_inerte ?y = None"
    by (simp add: nfkc_inerte_def)
  have "limpiar_texto nfkc_inerte ?y = ?y"
    using limpiar_texto_punto_fijo [OF refl s n] .
  with s show ?thesis by (simp add: nfkc_inerte_def)
qed

text \<open>
  Claim C5, as the spec states it: any two orderings of the table give the same output.
  It fails at U+00C3 U+00A2 U+201A U+00AC. In the order of the source the entry for
  U+00C3 U+00A2 runs first and produces U+00E2, which completes the key
  U+00E2 U+201A U+00AC of a later entry, and the output is U+20AC. With that later entry
  moved to the front the output is U+00E2 U+201A U+00AC.
\<close>

theorem correcciones_orden_contraejemplo:
  "mset (([0xE2, 0x201A, 0xAC], [0x20AC]) # remove1 ([0xE2, 0x201A, 0xAC], [0x20AC]) correcciones)
     = mset correcciones
   \<and> aplicar_correcciones correcciones [0xC3, 0xA2, 0x201A, 0xAC] = [0x20AC]
   \<and> aplicar_correcciones
        (([0xE2, 0x201A, 0xAC], [0x20AC]) # remove1 ([0xE2, 0x201A, 0xAC], [0x20AC]) correcciones)
        [0xC3, 0xA2, 0x201A, 0xAC] = [0xE2, 0x201A, 0xAC]"
proof -
  have m: "([0xE2, 0x201A, 0xAC], [0x20AC]) \<in> set correcciones"
    by (simp add: correcciones_eq)
  have 1: "aplicar_correcciones correcciones [0xC3, 0xA2, 0x201A, 0xAC] = [0x20AC]"
    by (simp add: aplicar_correcciones_def correcciones_eq)
  have 2: "aplicar_correcciones
        (([0xE2, 0x201A, 0xAC], [0x20AC]) # remove1 ([0xE2, 0x201A, 0xAC], [0x20AC]) correcciones)
        [0xC3, 0xA2, 0x201A, 0xAC] = [0xE2, 0x201A, 0xAC]"
    by (simp add: aplicar_correcciones_def correcciones_eq)
  from m 1 2 show ?thesis by simp
qed

subsection \<open>When two substitutions commute\<close>

lemma replace_si:
  "k \<noteq> [] \<Longrightarrow> take (length k) t = k \<Longrightarrow> replace k v t = v @ replace k v (drop (length k) t)"
  by (cases t) auto

lemma replace_no:
  "k \<noteq> [] \<Longrightarrow> take (length k) (x # r) \<noteq> k \<Longrightarrow> replace k v (x # r) = x # replace k v r"
  by simp

lemma replace_prefijo_ajeno:
  "k \<noteq> [] \<Longrightarrow> hd k \<notin> set p \<Longrightarrow> replace k v (p @ r) = p @ replace k v r"
proof (induction p)
  case Nil
  then show ?case by simp
next
  case (Cons x p)
  then have "take (length k) ((x # p) @ r) \<noteq> k" by (cases k) auto
  with Cons show ?case by simp
qed

lemma replace_inicio_resultado:
  "k \<noteq> [] \<Longrightarrow> v \<noteq> [] \<Longrightarrow> hd v \<notin> set p \<Longrightarrow> replace k v r = p @ w \<Longrightarrow> \<exists>w'. r = p @ w'"
proof (induction r arbitrary: p w)
  case Nil
  then show ?case by simp
next
  case (Cons y r)
  show ?case
  proof (cases p)
    case Nil
    then show ?thesis by simp
  next
    case (Cons z p')
    show ?thesis
    proof (cases "take (length k) (y # r) = k")
      case True
      have "replace k v (y # r) = v @ replace k v (drop (length k) (y # r))"
        using replace_si[OF Cons.prems(1) True] .
      with Cons.prems(4) Cons.prems(2) \<open>p = z # p'\<close> have "hd v = z" by (cases v) auto
      with Cons.prems(3) \<open>p = z # p'\<close> show ?thesis by simp
    next
      case False
      with Cons.prems have e: "y # replace k v r = z # p' @ w" using \<open>p = z # p'\<close> by simp
      then have "replace k v r = p' @ w" and "y = z" by simp_all
      from Cons.IH[OF Cons.prems(1,2) _ this(1)] Cons.prems(3) \<open>p = z # p'\<close>
      obtain w' where "r = p' @ w'" by auto
      with \<open>y = z\<close> \<open>p = z # p'\<close> show ?thesis by simp
    qed
  qed
qed

lemma replace_no_crea:
  assumes "k1 \<noteq> []" "k2 \<noteq> []" "v2 \<noteq> []" "set k1 \<inter> set v2 = {}"
    and "take (length k1) (x # r) \<noteq> k1"
  shows "take (length k1) (x # replace k2 v2 r) \<noteq> k1"
proof
  assume t: "take (length k1) (x # replace k2 v2 r) = k1"
  obtain k1' where k1: "k1 = x # k1'" using t assms(1) by (cases k1) auto
  with t have "take (length k1') (replace k2 v2 r) = k1'" by simp
  then have "replace k2 v2 r = k1' @ drop (length k1') (replace k2 v2 r)"
    by (metis append_take_drop_id)
  moreover have "hd v2 \<notin> set k1'" using assms(3,4) k1 by (cases v2) auto
  ultimately obtain w' where "r = k1' @ w'"
    using replace_inicio_resultado[OF assms(2,3)] by blast
  with k1 have "take (length k1) (x # r) = k1" by simp
  with assms(5) show False by contradiction
qed

lemma replace_conmuta_ajenos:
  assumes "k1 \<noteq> []" "k2 \<noteq> []" "v1 \<noteq> []" "v2 \<noteq> []"
    and d1: "set k1 \<inter> (set k2 \<union> set v2) = {}"
    and d2: "set k2 \<inter> (set k1 \<union> set v1) = {}"
  shows "replace k1 v1 (replace k2 v2 t) = replace k2 v2 (replace k1 v1 t)"
proof (induction t rule: length_induct)
  case (1 t)
  have h2k1: "hd k2 \<notin> set k1" and h2v1: "hd k2 \<notin> set v1"
    and h1k2: "hd k1 \<notin> set k2" and h1v2: "hd k1 \<notin> set v2"
    using assms by (cases k1; cases k2; auto)+
  show ?case
  proof (cases "take (length k1) t = k1")
    case True
    let ?r = "drop (length k1) t"
    have t: "t = k1 @ ?r" using True by (metis append_take_drop_id)
    have len: "length ?r < length t" using True assms(1) by (cases t) auto
    have a: "replace k1 v1 t = v1 @ replace k1 v1 ?r"
      using replace_si[OF assms(1) True] .
    have b: "replace k2 v2 t = k1 @ replace k2 v2 ?r"
      using replace_prefijo_ajeno[OF assms(2) h2k1, of v2 ?r] t by simp
    have "replace k1 v1 (k1 @ replace k2 v2 ?r) = v1 @ replace k1 v1 (replace k2 v2 ?r)"
      using replace_si[OF assms(1), of "k1 @ replace k2 v2 ?r" v1] by simp
    moreover have "replace k2 v2 (v1 @ replace k1 v1 ?r) = v1 @ replace k2 v2 (replace k1 v1 ?r)"
      by (rule replace_prefijo_ajeno[OF assms(2) h2v1])
    ultimately show ?thesis using 1 len a b by simp
  next
    case n1: False
    show ?thesis
    proof (cases "take (length k2) t = k2")
      case True
      let ?r = "drop (length k2) t"
      have t: "t = k2 @ ?r" using True by (metis append_take_drop_id)
      have len: "length ?r < length t" using True assms(2) by (cases t) auto
      have a: "replace k2 v2 t = v2 @ replace k2 v2 ?r"
        using replace_si[OF assms(2) True] .
      have b: "replace k1 v1 t = k2 @ replace k1 v1 ?r"
        using replace_prefijo_ajeno[OF assms(1) h1k2, of v1 ?r] t by simp
      have "replace k2 v2 (k2 @ replace k1 v1 ?r) = v2 @ replace k2 v2 (replace k1 v1 ?r)"
        using replace_si[OF assms(2), of "k2 @ replace k1 v1 ?r" v2] by simp
      moreover have "replace k1 v1 (v2 @ replace k2 v2 ?r) = v2 @ replace k1 v1 (replace k2 v2 ?r)"
        by (rule replace_prefijo_ajeno[OF assms(1) h1v2])
      ultimately show ?thesis using 1 len a b by simp
    next
      case n2: False
      show ?thesis
      proof (cases t)
        case Nil
        then show ?thesis using assms by simp
      next
        case (Cons x r)
        have a: "replace k1 v1 t = x # replace k1 v1 r"
          using n1 Cons assms(1) by simp
        have b: "replace k2 v2 t = x # replace k2 v2 r"
          using n2 Cons assms(2) by simp
        have "take (length k1) (x # replace k2 v2 r) \<noteq> k1"
          using replace_no_crea[OF assms(1,2,4)] d1 n1 Cons by blast
        then have c: "replace k1 v1 (x # replace k2 v2 r) = x # replace k1 v1 (replace k2 v2 r)"
          using assms(1) by simp
        have "take (length k2) (x # replace k1 v1 r) \<noteq> k2"
          using replace_no_crea[OF assms(2,1,3)] d2 n2 Cons by blast
        then have d: "replace k2 v2 (x # replace k1 v1 r) = x # replace k2 v2 (replace k1 v1 r)"
          using assms(2) by simp
        from 1 Cons a b c d show ?thesis by simp
      qed
    qed
  qed
qed

lemma replace_par_cabeza:
  assumes "y \<noteq> b" "c \<noteq> b"
  shows "\<exists>z w. replace [a, c] [c] (y # r) = z # w \<and> z \<noteq> b"
  using assms by (cases r) auto

lemma replace_conmuta_mismo_inicio:
  assumes "a \<noteq> b" "a \<noteq> c" "b \<noteq> c"
  shows "replace [a, b] [b] (replace [a, c] [c] t) = replace [a, c] [c] (replace [a, b] [b] t)"
proof (induction t rule: length_induct)
  case (1 t)
  show ?case
  proof (cases t)
    case Nil
    then show ?thesis by simp
  next
    case t1: (Cons x r)
    show ?thesis
    proof (cases r)
      case Nil
      with t1 show ?thesis by simp
    next
      case (Cons y r')
      have ih_r': "replace [a, b] [b] (replace [a, c] [c] r') = replace [a, c] [c] (replace [a, b] [b] r')"
        using 1 t1 Cons by simp
      have ih_r: "replace [a, b] [b] (replace [a, c] [c] r) = replace [a, c] [c] (replace [a, b] [b] r)"
        using 1 t1 by simp
      consider (ab) "x = a" "y = b" | (ac) "x = a" "y = c" | (otro) "\<not> (x = a \<and> (y = b \<or> y = c))"
        by blast
      then show ?thesis
      proof cases
        case ab
        with assms t1 Cons ih_r' show ?thesis by simp
      next
        case ac
        with assms t1 Cons ih_r' show ?thesis by simp
      next
        case otro
        have lb: "replace [a, b] [b] t = x # replace [a, b] [b] r"
          using otro t1 Cons by auto
        have lc: "replace [a, c] [c] t = x # replace [a, c] [c] r"
          using otro t1 Cons by auto
        have "replace [a, b] [b] (x # replace [a, c] [c] r) = x # replace [a, b] [b] (replace [a, c] [c] r)"
        proof (cases "x = a")
          case False
          then show ?thesis by (cases "replace [a, c] [c] r") auto
        next
          case True
          with otro have "y \<noteq> b" by simp
          from replace_par_cabeza[OF this, of c a r'] assms(3) Cons
          obtain z w where "replace [a, c] [c] r = z # w" "z \<noteq> b" by auto
          then show ?thesis by simp
        qed
        moreover
        have "replace [a, c] [c] (x # replace [a, b] [b] r) = x # replace [a, c] [c] (replace [a, b] [b] r)"
        proof (cases "x = a")
          case False
          then show ?thesis by (cases "replace [a, b] [b] r") auto
        next
          case True
          with otro have "y \<noteq> c" by simp
          from replace_par_cabeza[OF this, of b a r'] assms(3) Cons
          obtain z w where "replace [a, b] [b] r = z # w" "z \<noteq> c" by auto
          then show ?thesis by simp
        qed
        ultimately show ?thesis using lb lc ih_r by simp
      qed
    qed
  qed
qed

lemma aplicar_fold: "aplicar_correcciones tabla t = fold aplicar_una tabla t"
proof -
  have "aplicar_una = (\<lambda>e. replace (fst e) (snd e))"
    by (auto simp: fun_eq_iff aplicar_una_def)
  then show ?thesis
    by (simp add: aplicar_correcciones_def foldl_conv_fold case_prod_beta)
qed

lemma set_replace: "k \<noteq> [] \<Longrightarrow> set (replace k v t) \<subseteq> set t \<union> set v"
proof (induction t rule: length_induct)
  case (1 t)
  show ?case
  proof (cases t)
    case Nil
    with 1 show ?thesis by simp
  next
    case (Cons x r)
    have a: "set (replace k v r) \<subseteq> set r \<union> set v" using 1 Cons by simp
    have b: "set (replace k v (drop (length k) t)) \<subseteq> set (drop (length k) t) \<union> set v"
      using 1 Cons by (cases k) auto
    have "set (drop (length k) t) \<subseteq> set t" by (rule set_drop_subset)
    with a b Cons 1(2) show ?thesis by auto
  qed
qed

lemma contiene_set: "contiene k t \<Longrightarrow> set k \<subseteq> set t"
proof (induction t)
  case Nil
  then show ?case by simp
next
  case (Cons x r)
  show ?case
  proof (cases "take (length k) (x # r) = k")
    case True
    then have "set k = set (take (length k) (x # r))" by simp
    also have "\<dots> \<subseteq> set (x # r)" by (rule set_take_subset)
    finally show ?thesis .
  next
    case False
    with Cons show ?thesis by auto
  qed
qed

lemma replace_clave_ausente: "c \<in> set k \<Longrightarrow> c \<notin> set t \<Longrightarrow> replace k v t = t"
  using contiene_set[of k t] by (intro replace_sin_ocurrencia) auto

lemma clasificacion:
  "e \<in> set correcciones \<Longrightarrow> 0xC3 \<in> set (fst e) \<or> e \<in> set activas"
proof -
  have "list_all (\<lambda>e. 0xC3 \<in> set (fst e) \<or> e \<in> set activas) correcciones"
    by (simp add: correcciones_eq activas_def)
  then show "e \<in> set correcciones \<Longrightarrow> 0xC3 \<in> set (fst e) \<or> e \<in> set activas"
    by (simp add: list_all_iff)
qed

lemma activas_en_tabla: "set activas \<subseteq> set correcciones"
  by (simp add: correcciones_eq activas_def)

lemma aplicar_una_inerte: "0xC3 \<in> set (fst e) \<Longrightarrow> 0xC3 \<notin> set t \<Longrightarrow> aplicar_una e t = t"
  by (simp add: aplicar_una_def replace_clave_ausente)

lemma aplicar_una_preserva:
  assumes "e \<in> set correcciones" "0xC3 \<notin> set t"
  shows "0xC3 \<notin> set (aplicar_una e t)"
proof -
  from clasificacion[OF assms(1)] show ?thesis
  proof
    assume "0xC3 \<in> set (fst e)"
    with assms(2) show ?thesis by (simp add: aplicar_una_inerte)
  next
    assume "e \<in> set activas"
    then have "fst e \<noteq> [] \<and> 0xC3 \<notin> set (snd e)" by (auto simp: activas_def)
    with set_replace[of "fst e" "snd e" t] assms(2) show ?thesis
      by (auto simp: aplicar_una_def)
  qed
qed

lemma activas_conmutan:
  assumes "e1 \<in> set activas" "e2 \<in> set activas"
  shows "aplicar_una e1 (aplicar_una e2 t) = aplicar_una e2 (aplicar_una e1 t)"
proof -
  have p12: "replace [0xC2, 0xBF] [0xBF] (replace [0xC2, 0xA1] [0xA1] t)
           = replace [0xC2, 0xA1] [0xA1] (replace [0xC2, 0xBF] [0xBF] t)"
    by (rule replace_conmuta_mismo_inicio) simp_all
  have p13: "replace [0xC2, 0xBF] [0xBF] (replace [0xE2, 0x201A, 0xAC] [0x20AC] t)
           = replace [0xE2, 0x201A, 0xAC] [0x20AC] (replace [0xC2, 0xBF] [0xBF] t)"
    by (rule replace_conmuta_ajenos) simp_all
  have p23: "replace [0xC2, 0xA1] [0xA1] (replace [0xE2, 0x201A, 0xAC] [0x20AC] t)
           = replace [0xE2, 0x201A, 0xAC] [0x20AC] (replace [0xC2, 0xA1] [0xA1] t)"
    by (rule replace_conmuta_ajenos) simp_all
  from assms have "e1 = ([0xC2, 0xBF], [0xBF]) \<or> e1 = ([0xC2, 0xA1], [0xA1]) \<or>
      e1 = ([0xE2, 0x201A, 0xAC], [0x20AC])"
    and "e2 = ([0xC2, 0xBF], [0xBF]) \<or> e2 = ([0xC2, 0xA1], [0xA1]) \<or>
      e2 = ([0xE2, 0x201A, 0xAC], [0x20AC])"
    by (simp_all add: activas_def)
  then show ?thesis
    using p12 p13 p23 by (elim disjE) (simp_all add: aplicar_una_def)
qed

lemma aplicar_una_conmuta:
  assumes "e1 \<in> set correcciones" "e2 \<in> set correcciones" "0xC3 \<notin> set t"
  shows "aplicar_una e1 (aplicar_una e2 t) = aplicar_una e2 (aplicar_una e1 t)"
proof -
  note p1 = aplicar_una_preserva[OF assms(1,3)] and p2 = aplicar_una_preserva[OF assms(2,3)]
  from clasificacion[OF assms(1)] show ?thesis
  proof
    assume i: "0xC3 \<in> set (fst e1)"
    then show ?thesis using p2 assms(3) by (simp add: aplicar_una_inerte)
  next
    assume a1: "e1 \<in> set activas"
    from clasificacion[OF assms(2)] show ?thesis
    proof
      assume "0xC3 \<in> set (fst e2)"
      then show ?thesis using p1 assms(3) by (simp add: aplicar_una_inerte)
    next
      assume "e2 \<in> set activas"
      with a1 show ?thesis by (rule activas_conmutan)
    qed
  qed
qed

lemma aplicar_sin_C3_conmuta:
  assumes "e1 \<in> set correcciones" "e2 \<in> set correcciones"
  shows "aplicar_sin_C3 e1 \<circ> aplicar_sin_C3 e2 = aplicar_sin_C3 e2 \<circ> aplicar_sin_C3 e1"
proof
  fix t
  show "(aplicar_sin_C3 e1 \<circ> aplicar_sin_C3 e2) t = (aplicar_sin_C3 e2 \<circ> aplicar_sin_C3 e1) t"
  proof (cases "0xC3 \<in> set t")
    case True
    then show ?thesis by (simp add: aplicar_sin_C3_def)
  next
    case False
    with aplicar_una_preserva[OF assms(1)] aplicar_una_preserva[OF assms(2)]
      aplicar_una_conmuta[OF assms]
    show ?thesis by (simp add: aplicar_sin_C3_def)
  qed
qed

lemma fold_aplicar_sin_C3:
  "set orden \<subseteq> set correcciones \<Longrightarrow> 0xC3 \<notin> set t \<Longrightarrow>
   fold aplicar_sin_C3 orden t = fold aplicar_una orden t"
proof (induction orden arbitrary: t)
  case Nil
  then show ?case by simp
next
  case (Cons e orden)
  then have "0xC3 \<notin> set (aplicar_una e t)" by (simp add: aplicar_una_preserva)
  with Cons show ?case by (simp add: aplicar_sin_C3_def)
qed


lemma replace_uno: "c \<noteq> d \<Longrightarrow> c \<notin> set (replace [c] [d] t)"
  by (induction t) auto

lemma fold_aplicar_una_preserva:
  "set orden \<subseteq> set correcciones \<Longrightarrow> 0xC3 \<notin> set t \<Longrightarrow> 0xC3 \<notin> set (fold aplicar_una orden t)"
  by (induction orden arbitrary: t) (simp_all add: aplicar_una_preserva)

lemma correcciones_orden_fuente_sin_C3: "0xC3 \<notin> set (aplicar_correcciones correcciones x)"
proof -
  have p: "correcciones = take 24 correcciones @ ([0xC3], [0xD2]) # drop 25 correcciones"
    by (simp add: correcciones_eq)
  have "0xC3 \<notin> set (aplicar_una ([0xC3], [0xD2]) (fold aplicar_una (take 24 correcciones) x))"
    by (simp add: aplicar_una_def replace_uno)
  moreover have "set (drop 25 correcciones) \<subseteq> set correcciones"
    by (rule set_drop_subset)
  ultimately have "0xC3 \<notin> set (fold aplicar_una (drop 25 correcciones)
      (aplicar_una ([0xC3], [0xD2]) (fold aplicar_una (take 24 correcciones) x)))"
    by (intro fold_aplicar_una_preserva)
  then have "0xC3 \<notin> set (fold aplicar_una
      (take 24 correcciones @ ([0xC3], [0xD2]) # drop 25 correcciones) x)"
    by simp
  with p show ?thesis by (simp add: aplicar_fold)
qed

text \<open>
  Claim C5, amended: on every text that does not contain U+00C3, any two orderings of
  the entries of the table give the same output. Only the entries for U+00C2 U+00BF,
  U+00C2 U+00A1 and U+00E2 U+201A U+00AC can apply to such a text, and these three
  commute; on a text with U+00C3 the output follows the order, and the loop applies the
  insertion order of the table.
\<close>

theorem correcciones_orden_sin_C3:
  assumes "mset o1 = mset correcciones"
    and "mset o2 = mset correcciones"
    and "0xC3 \<notin> set x"
  shows "aplicar_correcciones o1 x = aplicar_correcciones o2 x"
proof -
  have s1: "set o1 = set correcciones" and s2: "set o2 = set correcciones"
    using assms(1,2) by (auto dest: mset_eq_setD)
  have "fold aplicar_sin_C3 o1 = fold aplicar_sin_C3 o2"
  proof (rule fold_multiset_equiv)
    fix e1 e2
    assume "e1 \<in> set o1" "e2 \<in> set o1"
    with s1 show "aplicar_sin_C3 e1 \<circ> aplicar_sin_C3 e2 = aplicar_sin_C3 e2 \<circ> aplicar_sin_C3 e1"
      by (simp add: aplicar_sin_C3_conmuta)
  next
    show "mset o1 = mset o2" using assms(1,2) by simp
  qed
  then have "fold aplicar_sin_C3 o1 x = fold aplicar_sin_C3 o2 x" by simp
  with s1 s2 assms(3) show ?thesis
    by (simp add: aplicar_fold fold_aplicar_sin_C3)
qed

lemma aplicar_orden_fuente:
  "aplicar_correcciones correcciones
     [0xC2, 0xBF, 0x51, 0x75, 0xE9, 0x3F, 0x20, 0xC2, 0xA1, 0x35, 0x20, 0xE2, 0x201A, 0xAC]
   = [0xBF, 0x51, 0x75, 0xE9, 0x3F, 0x20, 0xA1, 0x35, 0x20, 0x20AC]"
  by (simp add: aplicar_correcciones_def correcciones_eq)

lemma aplicar_orden_inverso:
  "aplicar_correcciones (rev correcciones)
     [0xC2, 0xBF, 0x51, 0x75, 0xE9, 0x3F, 0x20, 0xC2, 0xA1, 0x35, 0x20, 0xE2, 0x201A, 0xAC]
   = [0xBF, 0x51, 0x75, 0xE9, 0x3F, 0x20, 0xA1, 0x35, 0x20, 0x20AC]"
  by (simp add: aplicar_correcciones_def correcciones_eq)

theorem correcciones_orden_sin_C3_witness:
  "mset (rev correcciones) = mset correcciones \<and>
   0xC3 \<notin> set [0xC2, 0xBF, 0x51, 0x75, 0xE9, 0x3F, 0x20, 0xC2, 0xA1, 0x35, 0x20, 0xE2, 0x201A, 0xAC :: nat] \<and>
   aplicar_correcciones correcciones
     [0xC2, 0xBF, 0x51, 0x75, 0xE9, 0x3F, 0x20, 0xC2, 0xA1, 0x35, 0x20, 0xE2, 0x201A, 0xAC]
   = [0xBF, 0x51, 0x75, 0xE9, 0x3F, 0x20, 0xA1, 0x35, 0x20, 0x20AC] \<and>
   aplicar_correcciones (rev correcciones)
     [0xC2, 0xBF, 0x51, 0x75, 0xE9, 0x3F, 0x20, 0xC2, 0xA1, 0x35, 0x20, 0xE2, 0x201A, 0xAC]
   = aplicar_correcciones correcciones
     [0xC2, 0xBF, 0x51, 0x75, 0xE9, 0x3F, 0x20, 0xC2, 0xA1, 0x35, 0x20, 0xE2, 0x201A, 0xAC]"
proof -
  have a: "mset correcciones = mset correcciones" by simp
  have b: "mset (rev correcciones) = mset correcciones" by simp
  have c: "0xC3 \<notin> set [0xC2, 0xBF, 0x51, 0x75, 0xE9, 0x3F, 0x20, 0xC2, 0xA1, 0x35, 0x20, 0xE2, 0x201A, 0xAC :: nat]"
    by simp
  from correcciones_orden_sin_C3[OF b a c] b c aplicar_orden_fuente show ?thesis
    by simp
qed

section \<open>Properties of the crawl\<close>

lemma extraer_Some:
  assumes "extraer_pagina_individual env t u = Some p"
  shows "url p = u \<and> 20 \<le> length (split (contenido p)) \<and>
         (\<exists>sp. obtener_contenido env t u = Some sp \<and>
               extraer_contenido_principal env sp = Some (contenido p))"
  using assms
  by (auto simp: extraer_pagina_individual_def split: option.splits if_splits)

lemma paso_results:
  "results (paso env d m s) = results s \<or>
   (\<exists>p. results (paso env d m s) = results s @ [p] \<and>
        pop env (reloj s) (to_visit s) \<notin> visited s \<and>
        extraer_pagina_individual env (Suc (reloj s)) (pop env (reloj s) (to_visit s)) = Some p)"
  by (auto simp: paso_def Let_def split: option.splits)

lemma paso_visited:
  "visited (paso env d m s) = visited s \<or>
   visited (paso env d m s) = insert (pop env (reloj s) (to_visit s)) (visited s)"
  by (auto simp: paso_def Let_def split: option.splits)

lemma paso_visited_mono: "visited s \<subseteq> visited (paso env d m s)"
  using paso_visited[of env d m s] by auto

lemma paso_nuevo_visitado:
  "results (paso env d m s) = results s @ [p] \<Longrightarrow>
   pop env (reloj s) (to_visit s) \<in> visited (paso env d m s)"
  by (auto simp: paso_def Let_def split: option.splits if_splits)

lemma finite_procesar_enlaces: "finite (procesar_enlaces env u sp d)"
  by (simp add: procesar_enlaces_def)

lemma paso_finite: "finite (to_visit s) \<Longrightarrow> finite (to_visit (paso env d m s))"
  by (auto simp: paso_def Let_def finite_procesar_enlaces split: option.splits)

lemma paso_mide:
  assumes "finite (to_visit s)" and "pop env (reloj s) (to_visit s) \<in> to_visit s"
  shows "length (results (paso env d m s)) = Suc (length (results s)) \<or>
         (results (paso env d m s) = results s \<and>
          card (to_visit (paso env d m s)) < card (to_visit s))"
proof -
  have "card (to_visit s - {pop env (reloj s) (to_visit s)}) < card (to_visit s)"
    using assms by (rule card_Diff1_less)
  then show ?thesis
    by (auto simp: paso_def Let_def split: option.splits)
qed

lemma bucle_invariante:
  assumes run: "bucle env d m s = Some y" and ini: "I s"
    and step: "\<And>s. I s \<Longrightarrow> sigue m s \<Longrightarrow> I (paso env d m s)"
  shows "I y \<and> \<not> sigue m y"
proof -
  let ?P = "\<lambda>e d' m' s y. e = env \<longrightarrow> d' = d \<longrightarrow> m' = m \<longrightarrow> I s \<longrightarrow> I y \<and> \<not> sigue m y"
  have "?P env d m s y"
  proof (rule bucle.raw_induct[where P = ?P, OF _ run])
    fix f e d' m' s y
    assume IH: "\<And>e d' m' s y. f e d' m' s = Some y \<Longrightarrow> ?P e d' m' s y"
      and eq: "(if sigue m' s then f e d' m' (paso e d' m' s) else Some s) = Some y"
    show "?P e d' m' s y"
    proof (cases "sigue m' s")
      case True
      with eq have "f e d' m' (paso e d' m' s) = Some y" by simp
      from IH[OF this] True step show ?thesis by blast
    next
      case False
      with eq show ?thesis by auto
    qed
  qed
  with ini show ?thesis by blast
qed

lemma bucle_termina:
  assumes "0 < m" and "pop_valido env" and fin: "finite (to_visit s)"
  shows "\<exists>y. bucle env d m s = Some y"
proof -
  have wf: "wf (medida m)"
    unfolding medida_def by (intro wf_inv_image wf_lex_prod wf_less_than)
  show ?thesis using fin
  proof (induction s rule: wf_induct_rule[OF wf])
    case (1 s)
    show ?case
    proof (cases "sigue m s")
      case False
      then show ?thesis by (subst bucle.simps) simp
    next
      case True
      then have ne: "to_visit s \<noteq> {}" and lt: "int (length (results s)) < m"
        using assms(1) by (auto simp: sigue_def)
      have "pop env (reloj s) (to_visit s) \<in> to_visit s"
        using assms(2) 1(2) ne by (simp add: pop_valido_def)
      from paso_mide[OF 1(2) this, of d m] lt
      have "(paso env d m s, s) \<in> medida m"
        by (auto simp: medida_def)
      from 1(1)[OF this paso_finite[OF 1(2)]]
      obtain y where "bucle env d m (paso env d m s) = Some y" by blast
      with True show ?thesis by (subst bucle.simps) simp
    qed
  qed
qed

lemma limpiar_texto_ej: "limpiar_texto nfkc_inerte texto_ej = texto_ej"
  by (simp add: texto_ej_def limpiar_texto_def aplicar_correcciones_def correcciones_eq es_espacio_def es_control_def strip_def lit_def nfkc_inerte_def)

lemma limpiar_Inicio: "limpiar_texto nfkc_inerte (lit ''Inicio'') = lit ''Inicio''"
  by (simp add: limpiar_texto_def aplicar_correcciones_def correcciones_eq es_espacio_def es_control_def strip_def lit_def nfkc_inerte_def)

lemma split_texto_ej: "length (split texto_ej) = 20"
  by (simp add: texto_ej_def split_def lit_def es_espacio_def)

lemma texto_ej_ne: "texto_ej \<noteq> []"
  by (simp add: texto_ej_def lit_def)

lemma inicio_ne: "lit ''Inicio'' \<noteq> []"
  by (simp add: lit_def)

lemma extraer_ej: "extraer_pagina_individual env_ej t url_inicio_ej = Some pagina_ej"
  by (simp add: extraer_pagina_individual_def env_ej_def soup_ej_def extraer_titulo_def
      extraer_contenido_principal_def selectors_def limpiar_texto_ej limpiar_Inicio split_texto_ej
      pagina_ej_def Let_def texto_ej_ne inicio_ne)

lemma pop_valido_ej: "pop_valido env_ej"
  by (simp add: pop_valido_def env_ej_def)

lemma pop_ej: "pop env_ej t {u} = u"
  by (simp add: env_ej_def)

lemma paso_ej:
  "paso env_ej d 1 \<lparr>to_visit = {url_inicio_ej}, visited = {}, results = [], reloj = 0\<rparr>
   = \<lparr>to_visit = {}, visited = {url_inicio_ej}, results = [pagina_ej], reloj = 2\<rparr>"
  by (simp add: paso_def Let_def pop_ej extraer_ej)

lemma rastrear_ej: "rastrear_sitio_web env_ej url_inicio_ej 1 = Some (Inr [pagina_ej])"
  apply (simp add: rastrear_sitio_web_def)
  apply (simp add: env_ej_def urlparse_ej_def)
  apply (fold env_ej_def urlparse_ej_def)
  apply (subst bucle.simps)
  apply (simp add: sigue_def paso_ej)
  apply (subst bucle.simps)
  apply (simp add: sigue_def)
  done

lemma rastrear_Inr:
  assumes "rastrear_sitio_web env u m = Some (Inr rs)"
  obtains p y where "urlparse env u = Some p"
    and "bucle env (netloc p) m \<lparr>to_visit = {u}, visited = {}, results = [], reloj = 0\<rparr> = Some y"
    and "rs = results y"
  using assms by (auto simp: rastrear_sitio_web_def split: option.splits)

text \<open>
  Claim C1: for every seed URL, every bound \<open>N > 0\<close> and every site, the crawl
  \<open>rastrear_sitio_web(seed_url, N)\<close> returns a list of at most \<open>N\<close> elements. With
  \<open>N > 0\<close> the crawl ends, whatever the site answers (it raises \<open>ValueError\<close> when
  \<open>urlparse\<close> raises on the seed URL), and every list it returns has at most \<open>N\<close>
  elements.
\<close>

theorem rastrear_sitio_web_a_lo_sumo_N:
  assumes "0 < N"
  shows "(pop_valido env \<longrightarrow> (\<exists>r. rastrear_sitio_web env url_inicio N = Some r)) \<and>
         (\<forall>rs. rastrear_sitio_web env url_inicio N = Some (Inr rs) \<longrightarrow> int (length rs) \<le> N)"
proof (intro conjI impI allI)
  assume pv: "pop_valido env"
  show "\<exists>r. rastrear_sitio_web env url_inicio N = Some r"
  proof (cases "urlparse env url_inicio")
    case None
    then show ?thesis by (simp add: rastrear_sitio_web_def)
  next
    case (Some p)
    have "finite (to_visit \<lparr>to_visit = {url_inicio}, visited = {}, results = [], reloj = 0\<rparr>)"
      by simp
    from bucle_termina[OF assms pv this, of "netloc p"] Some
    show ?thesis by (auto simp: rastrear_sitio_web_def)
  qed
next
  fix rs
  assume "rastrear_sitio_web env url_inicio N = Some (Inr rs)"
  then obtain p :: parse_result and y where run: "bucle env (netloc p) N
      \<lparr>to_visit = {url_inicio}, visited = {}, results = [], reloj = 0\<rparr> = Some y"
    and rs: "rs = results y"
    by (rule rastrear_Inr)
  let ?I = "\<lambda>s. int (length (results s)) \<le> N"
  have "?I y \<and> \<not> sigue N y"
  proof (rule bucle_invariante[OF run])
    show "?I \<lparr>to_visit = {url_inicio}, visited = {}, results = [], reloj = 0\<rparr>"
      using assms by simp
  next
    fix s
    assume "?I s" and "sigue N s"
    then have "int (length (results s)) < N"
      using assms by (auto simp: sigue_def)
    with paso_results[of env "netloc p" N s]
    show "?I (paso env (netloc p) N s)" by auto
  qed
  with rs show "int (length rs) \<le> N" by simp
qed

theorem rastrear_sitio_web_a_lo_sumo_N_witness:
  "(0::int) < 1 \<and> pop_valido env_ej \<and>
   rastrear_sitio_web env_ej url_inicio_ej 1 = Some (Inr [pagina_ej]) \<and>
   int (length [pagina_ej]) \<le> 1"
proof -
  have h: "(0::int) < 1" by simp
  have "\<forall>rs. rastrear_sitio_web env_ej url_inicio_ej 1 = Some (Inr rs) \<longrightarrow> int (length rs) \<le> 1"
    using rastrear_sitio_web_a_lo_sumo_N[OF h, of env_ej url_inicio_ej] by blast
  with rastrear_ej have "int (length [pagina_ej]) \<le> 1" by blast
  with pop_valido_ej rastrear_ej show ?thesis by simp
qed

text \<open>
  Claim C10: in every invocation of \<open>rastrear_sitio_web\<close> the URLs of the returned
  results are pairwise distinct. Every result carries the URL that was popped for it,
  that URL was not yet in the visited set, and it is put there before the page is read.
\<close>

theorem rastrear_sitio_web_urls_distintas:
  assumes "rastrear_sitio_web env url_inicio max_paginas = Some (Inr rs)"
  shows "distinct (map url rs)"
proof -
  from assms obtain p :: parse_result and y where run: "bucle env (netloc p) max_paginas
      \<lparr>to_visit = {url_inicio}, visited = {}, results = [], reloj = 0\<rparr> = Some y"
    and rs: "rs = results y"
    by (rule rastrear_Inr)
  let ?I = "\<lambda>s. distinct (map url (results s)) \<and> url ` set (results s) \<subseteq> visited s"
  have "?I y \<and> \<not> sigue max_paginas y"
  proof (rule bucle_invariante[OF run])
    show "?I \<lparr>to_visit = {url_inicio}, visited = {}, results = [], reloj = 0\<rparr>" by simp
  next
    fix s
    let ?s' = "paso env (netloc p) max_paginas s"
    let ?u = "pop env (reloj s) (to_visit s)"
    assume I: "?I s" and "sigue max_paginas s"
    from paso_results[of env "netloc p" max_paginas s]
    show "?I ?s'"
    proof
      assume "results ?s' = results s"
      with I paso_visited_mono[of s env "netloc p" max_paginas] show ?thesis by auto
    next
      assume "\<exists>q. results ?s' = results s @ [q] \<and> ?u \<notin> visited s \<and>
        extraer_pagina_individual env (Suc (reloj s)) ?u = Some q"
      then obtain q where r: "results ?s' = results s @ [q]" and nv: "?u \<notin> visited s"
        and ex: "extraer_pagina_individual env (Suc (reloj s)) ?u = Some q" by blast
      from extraer_Some[OF ex] have uq: "url q = ?u" by simp
      from paso_nuevo_visitado[OF r] have "?u \<in> visited ?s'" .
      with I r nv uq paso_visited_mono[of s env "netloc p" max_paginas]
      show ?thesis by auto
    qed
  qed
  with rs show ?thesis by simp
qed

theorem rastrear_sitio_web_urls_distintas_witness:
  "rastrear_sitio_web env_ej url_inicio_ej 1 = Some (Inr [pagina_ej]) \<and>
   distinct (map url [pagina_ej])"
  using rastrear_sitio_web_urls_distintas[OF rastrear_ej] rastrear_ej by simp

lemma limpiar_corta: "limpiar_texto nfkc_inerte (lit ''solo tres palabras'') = lit ''solo tres palabras''"
  by (simp add: evaluar_texto)

lemma split_corta: "length (split (lit ''solo tres palabras'')) = 3"
  by (simp add: split_def lit_def es_espacio_def)

lemma contenido_corta:
  "extraer_contenido_principal env_corta soup_corta = Some (lit ''solo tres palabras'')"
  by (simp add: extraer_contenido_principal_def env_corta_def env_ej_def soup_corta_def
      soup_ej_def selectors_def limpiar_corta)

text \<open>
  Claim C9: when the main content extracted from the answer for a URL is absent or has
  fewer than 20 words, \<open>extraer_pagina_individual\<close> returns \<open>None\<close>; consequently
  such a page is never appended to the result list of a crawl: every page of the list
  comes from an answer whose extracted content is present and has at least 20 words.
\<close>

theorem paginas_cortas_rechazadas:
  "(obtener_contenido env t u = Some sp \<longrightarrow>
      (case extraer_contenido_principal env sp of
         None \<Rightarrow> True | Some c \<Rightarrow> length (split c) < 20) \<longrightarrow>
      extraer_pagina_individual env t u = None) \<and>
   (rastrear_sitio_web env' u' m = Some (Inr rs) \<longrightarrow>
      (\<forall>p\<in>set rs. \<exists>t' sp'. obtener_contenido env' t' (url p) = Some sp' \<and>
          extraer_contenido_principal env' sp' = Some (contenido p) \<and>
          20 \<le> length (split (contenido p))))"
proof (intro conjI impI)
  assume "obtener_contenido env t u = Some sp"
    and "case extraer_contenido_principal env sp of
           None \<Rightarrow> True | Some c \<Rightarrow> length (split c) < 20"
  then show "extraer_pagina_individual env t u = None"
    by (auto simp: extraer_pagina_individual_def split: option.splits)
next
  assume "rastrear_sitio_web env' u' m = Some (Inr rs)"
  then obtain p :: parse_result and y where run: "bucle env' (netloc p) m
      \<lparr>to_visit = {u'}, visited = {}, results = [], reloj = 0\<rparr> = Some y"
    and rs: "rs = results y"
    by (rule rastrear_Inr)
  let ?ok = "\<lambda>q. \<exists>t' sp'. obtener_contenido env' t' (url q) = Some sp' \<and>
          extraer_contenido_principal env' sp' = Some (contenido q) \<and>
          20 \<le> length (split (contenido q))"
  let ?I = "\<lambda>s. \<forall>q\<in>set (results s). ?ok q"
  have "?I y \<and> \<not> sigue m y"
  proof (rule bucle_invariante[OF run])
    show "?I \<lparr>to_visit = {u'}, visited = {}, results = [], reloj = 0\<rparr>" by simp
  next
    fix s
    let ?s' = "paso env' (netloc p) m s"
    assume I: "?I s" and "sigue m s"
    from paso_results[of env' "netloc p" m s]
    show "?I ?s'"
    proof
      assume "results ?s' = results s"
      with I show ?thesis by simp
    next
      assume "\<exists>q. results ?s' = results s @ [q] \<and>
        pop env' (reloj s) (to_visit s) \<notin> visited s \<and>
        extraer_pagina_individual env' (Suc (reloj s)) (pop env' (reloj s) (to_visit s)) = Some q"
      then obtain q where r: "results ?s' = results s @ [q]"
        and ex: "extraer_pagina_individual env' (Suc (reloj s))
                   (pop env' (reloj s) (to_visit s)) = Some q" by blast
      from extraer_Some[OF ex] have "?ok q" by auto
      with I r show ?thesis by auto
    qed
  qed
  with rs show "\<forall>p\<in>set rs. ?ok p" by simp
qed

theorem paginas_cortas_rechazadas_witness:
  "obtener_contenido env_corta 1 url_inicio_ej = Some soup_corta \<and>
   extraer_contenido_principal env_corta soup_corta = Some (lit ''solo tres palabras'') \<and>
   length (split (lit ''solo tres palabras'')) < 20 \<and>
   extraer_pagina_individual env_corta 1 url_inicio_ej = None \<and>
   rastrear_sitio_web env_ej url_inicio_ej 1 = Some (Inr [pagina_ej]) \<and>
   (\<exists>t' sp'. obtener_contenido env_ej t' (url pagina_ej) = Some sp' \<and>
      extraer_contenido_principal env_ej sp' = Some (contenido pagina_ej) \<and>
      20 \<le> length (split (contenido pagina_ej)))"
proof -
  have a: "obtener_contenido env_corta 1 url_inicio_ej = Some soup_corta"
    by (simp add: env_corta_def env_ej_def)
  have b: "case extraer_contenido_principal env_corta soup_corta of
             None \<Rightarrow> True | Some c \<Rightarrow> length (split c) < 20"
    by (simp add: contenido_corta split_corta)
  note th = paginas_cortas_rechazadas[of env_corta 1 url_inicio_ej soup_corta
      env_ej url_inicio_ej 1 "[pagina_ej]"]
  from th a b have c: "extraer_pagina_individual env_corta 1 url_inicio_ej = None"
    by blast
  from th rastrear_ej
  have d: "\<exists>t' sp'. obtener_contenido env_ej t' (url pagina_ej) = Some sp' \<and>
      extraer_contenido_principal env_ej sp' = Some (contenido pagina_ej) \<and>
      20 \<le> length (split (contenido pagina_ej))"
    by simp
  from a c d rastrear_ej contenido_corta split_corta show ?thesis by simp
qed

section \<open>Properties of link harvesting\<close>

lemma es_url_valida_sin_netloc:
  assumes "urlparse env d = None \<or> (\<exists>b. urlparse env d = Some b \<and> netloc b = [])"
  shows "\<not> es_url_valida env u d"
  using assms by (auto simp: es_url_valida_def split: option.splits)

lemma procesar_enlaces_sin_netloc:
  assumes "urlparse env d = None \<or> (\<exists>b. urlparse env d = Some b \<and> netloc b = [])"
  shows "procesar_enlaces env u sp d = {}"
proof -
  have "enlace env u d h = None" for h
    using es_url_valida_sin_netloc[OF assms]
    by (auto simp: enlace_def split: list.splits option.splits)
  then show ?thesis
    by (simp add: procesar_enlaces_def map_filter_def)
qed

lemma urlparse_dominio_ej: "urlparse env_ej (lit ''example.com'') = Some \<lparr>scheme = [], netloc = [], path = lit ''example.com''\<rparr>"
  by (simp add: env_ej_def urlparse_ej_def url_inicio_ej_def url_guia_ej_def lit_def)

lemma enlace_resuelto_ej:
  "split_sep 35 (lit ''/guia#intro'') = [lit ''/guia'', lit ''intro''] \<and>
   urljoin env_ej url_inicio_ej (lit ''/guia'') = Some url_guia_ej \<and>
   urlparse env_ej url_guia_ej =
     Some \<lparr>scheme = lit ''https'', netloc = lit ''example.com'', path = lit ''/guia''\<rparr>"
  by (simp add: env_ej_def urljoin_ej_def urlparse_ej_def url_inicio_ej_def url_guia_ej_def lit_def)

text \<open>
  Claim C2: the link harvester returns exactly the resolved, fragment-stripped anchor
  URLs whose host is the base domain and whose path does not end in a non-document
  extension. The code does otherwise at the page \<open>https://example.com/\<close> with the one
  anchor \<open>/guia#intro\<close> and the base domain \<open>example.com\<close>, which is what
  \<open>rastrear_sitio_web\<close> passes (the \<open>netloc\<close> of the seed): \<open>_es_url_valida\<close> parses
  the base domain as a URL, the \<open>netloc\<close> of a bare host name is empty, and no link is
  kept, where the claim gives \<open>https://example.com/guia\<close>.
\<close>

theorem procesar_enlaces_dominio_base:
  "hrefs soup_ej = [lit ''/guia#intro''] \<and>
   urljoin env_ej url_inicio_ej (lit ''/guia'') = Some url_guia_ej \<and>
   urlparse env_ej url_guia_ej =
     Some \<lparr>scheme = lit ''https'', netloc = lit ''example.com'', path = lit ''/guia''\<rparr> \<and>
   procesar_enlaces env_ej url_inicio_ej soup_ej (lit ''example.com'') = {}"
proof -
  have "procesar_enlaces env_ej url_inicio_ej soup_ej (lit ''example.com'') = {}"
    by (rule procesar_enlaces_sin_netloc) (simp add: urlparse_dominio_ej)
  with enlace_resuelto_ej show ?thesis by (simp add: soup_ej_def)
qed

lemma es_url_valida_subcadena:
  "\<not> es_url_valida env_ej (lit ''https://example.com/notas.pdf.html'') url_inicio_ej"
  by (simp add: es_url_valida_def env_ej_def urlparse_ej_def url_inicio_ej_def url_guia_ej_def
      lit_def extensiones_def lower_def)

lemma rastrear_ej_sin_limite:
  "rastrear_sitio_web env_ej url_inicio_ej 0 = Some (Inr [pagina_ej])"
proof -
  have p: "urlparse env_ej url_inicio_ej =
      Some \<lparr>scheme = lit ''https'', netloc = lit ''example.com'', path = lit ''/''\<rparr>"
    by (simp add: env_ej_def urlparse_ej_def)
  have o: "obtener_contenido env_ej t url_inicio_ej = Some soup_ej" for t
    by (simp add: env_ej_def)
  have e: "procesar_enlaces env_ej url_inicio_ej soup_ej (lit ''example.com'') = {}"
    by (rule procesar_enlaces_sin_netloc) (simp add: urlparse_dominio_ej)
  have paso: "paso env_ej (lit ''example.com'') 0
      \<lparr>to_visit = {url_inicio_ej}, visited = {}, results = [], reloj = 0\<rparr>
    = \<lparr>to_visit = {}, visited = {url_inicio_ej}, results = [pagina_ej], reloj = 3\<rparr>"
    by (simp add: paso_def Let_def pop_ej extraer_ej o e)
  show ?thesis
    apply (simp add: rastrear_sitio_web_def p)
    apply (subst bucle.simps)
    apply (simp add: sigue_def paso)
    apply (subst bucle.simps)
    apply (simp add: sigue_def)
    done
qed

section \<open>Properties of search\<close>

lemma convertir_no_negativa: "r \<in> set (convertir docs ms ds) \<Longrightarrow> 0 \<le> c_puntuacion r"
  by (induction docs arbitrary: ms ds) (auto simp: Let_def)

lemma convertir_ej: "map c_puntuacion (convertir_resultados_chromadb consulta_ej) = [0]"
  by (simp add: convertir_resultados_chromadb_def consulta_ej_def Let_def)

text \<open>
  Claim C3: the score of every result of the search operation is
  \<open>max(0, 1 - distance)\<close>, never negative. \<open>buscar_en_todos_sitios\<close> reports
  \<open>1.0 - distance\<close> as it is: at distance 1.5 its score is -0.5, where
  \<open>convertir_resultados_chromadb\<close> gives 0 for the same answer.
\<close>

theorem buscar_en_todos_sitios_puntuacion_negativa:
  "distances consulta_ej = [3 / 2] \<and>
   map puntuacion (buscar_en_todos_sitios env_busqueda (lit ''python'') 5) = [- 1 / 2]"
  by (simp add: buscar_en_todos_sitios_def env_busqueda_def env_ej_def consulta_ej_def lit_def)

section \<open>Properties of the source registry\<close>

text \<open>
  Claim C6: whenever the URL is already in the registry or does not parse to a scheme
  and a host, \<open>agregar_fuente\<close> returns a failure (\<open>exito == False\<close>) and leaves the
  source list in memory and the persisted registry as they were. No exception leaves
  the function: \<open>urlparse\<close> raising is caught by its handler, which returns a failure
  too.
\<close>

theorem agregar_fuente_rechaza:
  assumes "list_ex (\<lambda>f. fuente_url f = u) (sources s) \<or>
           (case urlparse env u of None \<Rightarrow> True | Some p \<Rightarrow> scheme p = [] \<or> netloc p = [])"
  shows "\<not> exito (fst (agregar_fuente env u nom descr cat idi s)) \<and>
         snd (agregar_fuente env u nom descr cat idi s) = s"
  using assms by (auto simp: agregar_fuente_def split: option.splits)

lemma urlparse_inicio_ej:
  "urlparse env_ej url_inicio_ej =
     Some \<lparr>scheme = lit ''https'', netloc = lit ''example.com'', path = lit ''/''\<rparr>"
  by (simp add: env_ej_def urlparse_ej_def)

theorem agregar_fuente_rechaza_witness:
  "list_ex (\<lambda>f. fuente_url f = url_inicio_ej) (sources base_ej) \<and>
   agregar_fuente env_ej url_inicio_ej (lit ''Otra'') [] (lit ''General'') (lit ''es'') base_ej
     = (Fallo (lit ''La fuente ya existe''), base_ej) \<and>
   urlparse env_ej (lit ''example.com'') = Some \<lparr>scheme = [], netloc = [], path = lit ''example.com''\<rparr> \<and>
   \<not> exito (fst (agregar_fuente env_ej (lit ''example.com'') (lit ''Otra'') [] (lit ''General'') (lit ''es'') base_ej)) \<and>
   snd (agregar_fuente env_ej (lit ''example.com'') (lit ''Otra'') [] (lit ''General'') (lit ''es'') base_ej) = base_ej"
proof -
  have a: "list_ex (\<lambda>f. fuente_url f = url_inicio_ej) (sources base_ej)"
    by (simp add: base_ej_def fuente_ej_def)
  have b: "agregar_fuente env_ej url_inicio_ej (lit ''Otra'') [] (lit ''General'') (lit ''es'') base_ej
     = (Fallo (lit ''La fuente ya existe''), base_ej)"
    by (simp add: agregar_fuente_def urlparse_inicio_ej a) (simp add: lit_def)
  have c: "case urlparse env_ej (lit ''example.com'') of
             None \<Rightarrow> True | Some p \<Rightarrow> scheme p = [] \<or> netloc p = []"
    by (simp add: urlparse_dominio_ej)
  from agregar_fuente_rechaza[of "lit ''example.com''" base_ej env_ej "lit ''Otra''" "[]" "lit ''General''" "lit ''es''"] c
  have "\<not> exito (fst (agregar_fuente env_ej (lit ''example.com'') (lit ''Otra'') [] (lit ''General'') (lit ''es'') base_ej)) \<and>
   snd (agregar_fuente env_ej (lit ''example.com'') (lit ''Otra'') [] (lit ''General'') (lit ''es'') base_ej) = base_ej"
    by blast
  with a b urlparse_dominio_ej show ?thesis by simp
qed

lemma agregar_fuente_distinct:
  assumes "distinct (map fuente_url (sources s))"
  shows "distinct (map fuente_url (sources (snd (agregar_fuente env u nom descr cat idi s))))"
  using assms
  by (auto simp: agregar_fuente_def guardar_fuentes_def Let_def list_ex_iff split: option.splits)

lemma quitar_Some_ex: "u \<in> fuente_url ` set fs \<Longrightarrow> \<exists>fs'. quitar u fs = Some fs'"
  by (induction fs) auto

lemma quitar_set: "quitar u fs = Some fs' \<Longrightarrow> set fs' \<subseteq> set fs \<and> length fs = Suc (length fs')"
  by (induction fs arbitrary: fs') (auto split: if_splits)

lemma quitar_distinct:
  "quitar u fs = Some fs' \<Longrightarrow> distinct (map fuente_url fs) \<Longrightarrow> u \<notin> fuente_url ` set fs'"
proof (induction fs arbitrary: fs')
  case Nil
  then show ?case by simp
next
  case (Cons f fs)
  show ?case
  proof (cases "fuente_url f = u")
    case True
    with Cons.prems show ?thesis by auto
  next
    case False
    with Cons.prems obtain r where r: "quitar u fs = Some r" and fs': "fs' = f # r" by auto
    from Cons.IH[OF r] Cons.prems(2) False fs' show ?thesis by auto
  qed
qed

lemma quitar_forma:
  "quitar u fs = Some fs' \<Longrightarrow>
   \<exists>xs f ys. fs = xs @ f # ys \<and> fuente_url f = u \<and> u \<notin> fuente_url ` set xs \<and> fs' = xs @ ys"
proof (induction fs arbitrary: fs')
  case Nil
  then show ?case by simp
next
  case (Cons g gs)
  show ?case
  proof (cases "fuente_url g = u")
    case True
    with Cons.prems have "g # gs = [] @ g # gs \<and> fuente_url g = u \<and>
        u \<notin> fuente_url ` set [] \<and> fs' = [] @ gs" by simp
    then show ?thesis by blast
  next
    case False
    with Cons.prems obtain r where r: "quitar u gs = Some r" and fs': "fs' = g # r" by auto
    from Cons.IH[OF r] obtain xs f ys where
      "gs = xs @ f # ys" "fuente_url f = u" "u \<notin> fuente_url ` set xs" "r = xs @ ys" by blast
    with False fs' have "g # gs = (g # xs) @ f # ys \<and> fuente_url f = u \<and>
        u \<notin> fuente_url ` set (g # xs) \<and> fs' = (g # xs) @ ys" by simp
    then show ?thesis by blast
  qed
qed

lemma eliminar_fuente_estado:
  assumes "quitar u (sources s) = Some fs"
  shows "eliminar_fuente env u s =
       (Exito (lit ''Fuente eliminada exitosamente''),
        s\<lparr>sources := fs, indexados := (indexados s)(u := None),
          sources_file := (if escribir_ok env (lit ''fuentes.json'') then fs else sources_file s),
          indexados_file :=
            (if indexados s u \<noteq> None \<and> escribir_ok env (lit ''indexados.json'')
             then (indexados s)(u := None) else indexados_file s)\<rparr>)"
proof (cases "indexados s u")
  case None
  then have "(indexados s)(u := None) = indexados s" by (simp add: fun_upd_idem)
  with None assms show ?thesis
    by (simp add: eliminar_fuente_def Let_def guardar_fuentes_def)
next
  case (Some a)
  with assms show ?thesis
    by (simp add: eliminar_fuente_def Let_def guardar_fuentes_def guardar_indexados_def)
qed

text \<open>
  Claim C8, as the spec states it: for every registered source URL, \<open>eliminar_fuente\<close>
  removes that source from the registry. In a registry that holds the URL twice the
  function pops the first entry of that URL and returns: a source with that URL is
  still registered afterwards.
\<close>

theorem eliminar_fuente_duplicada:
  "url_inicio_ej \<in> fuente_url ` set (sources base_duplicada_ej) \<and>
   fst (eliminar_fuente env_ej url_inicio_ej base_duplicada_ej)
     = Exito (lit ''Fuente eliminada exitosamente'') \<and>
   sources (snd (eliminar_fuente env_ej url_inicio_ej base_duplicada_ej))
     = [fuente_ej\<lparr>nombre := lit ''Copia''\<rparr>] \<and>
   url_inicio_ej \<in> fuente_url ` set (sources (snd (eliminar_fuente env_ej url_inicio_ej base_duplicada_ej)))"
  by (simp add: eliminar_fuente_def Let_def guardar_fuentes_def base_duplicada_ej_def fuente_ej_def)

text \<open>
  Claim C8, amended: for a registered source URL, \<open>eliminar_fuente\<close> succeeds and removes
  the first source of that URL, keeping every other source in its place; it removes the
  entry of \<open>indexados\<close> keyed by that URL and no other, so that a later
  \<open>indexar_fuente\<close> finds no timestamp for it; it writes the new registry to its file,
  and the new side table to its file when an entry was removed, whenever the write
  succeeds. When the URLs of the registry are distinct, as \<open>agregar_fuente\<close> keeps
  them, no source with that URL remains.
\<close>

theorem eliminar_fuente_quita_primera:
  assumes "u \<in> fuente_url ` set (sources s)"
  shows "\<exists>xs f ys.
     sources s = xs @ f # ys \<and> fuente_url f = u \<and> u \<notin> fuente_url ` set xs \<and>
     eliminar_fuente env u s =
       (Exito (lit ''Fuente eliminada exitosamente''),
        s\<lparr>sources := xs @ ys, indexados := (indexados s)(u := None),
          sources_file := (if escribir_ok env (lit ''fuentes.json'') then xs @ ys else sources_file s),
          indexados_file :=
            (if indexados s u \<noteq> None \<and> escribir_ok env (lit ''indexados.json'')
             then (indexados s)(u := None) else indexados_file s)\<rparr>) \<and>
     (distinct (map fuente_url (sources s)) \<longrightarrow> u \<notin> fuente_url ` set (xs @ ys))"
proof -
  from quitar_Some_ex[OF assms] obtain fs where q: "quitar u (sources s) = Some fs" by blast
  from quitar_forma[OF q] obtain xs f ys where
    d: "sources s = xs @ f # ys" "fuente_url f = u" "u \<notin> fuente_url ` set xs" "fs = xs @ ys"
    by blast
  have "distinct (map fuente_url (sources s)) \<longrightarrow> u \<notin> fuente_url ` set (xs @ ys)"
    using d by auto
  with d eliminar_fuente_estado[OF q, of env] show ?thesis by blast
qed

theorem eliminar_fuente_quita_primera_witness:
  "url_inicio_ej \<in> fuente_url ` set (sources base_dos_ej) \<and>
   distinct (map fuente_url (sources base_dos_ej)) \<and>
   indexados base_dos_ej url_inicio_ej = Some (lit ''2024-01-01 00:00:00'') \<and>
   fst (eliminar_fuente env_ej url_inicio_ej base_dos_ej)
     = Exito (lit ''Fuente eliminada exitosamente'') \<and>
   sources (snd (eliminar_fuente env_ej url_inicio_ej base_dos_ej)) = [fuente_guia_ej] \<and>
   sources_file (snd (eliminar_fuente env_ej url_inicio_ej base_dos_ej)) = [fuente_guia_ej] \<and>
   indexados (snd (eliminar_fuente env_ej url_inicio_ej base_dos_ej)) url_inicio_ej = None \<and>
   indexados (snd (eliminar_fuente env_ej url_inicio_ej base_dos_ej)) url_guia_ej
     = Some (lit ''2024-01-02 00:00:00'') \<and>
   indexados_file (snd (eliminar_fuente env_ej url_inicio_ej base_dos_ej)) url_inicio_ej = None \<and>
   indexados_file (snd (eliminar_fuente env_ej url_inicio_ej base_dos_ej)) url_guia_ej
     = Some (lit ''2024-01-02 00:00:00'')"
proof -
  have ne: "url_guia_ej \<noteq> url_inicio_ej"
    by (simp add: url_guia_ej_def url_inicio_ej_def lit_def)
  have a: "url_inicio_ej \<in> fuente_url ` set (sources base_dos_ej)"
    by (simp add: base_dos_ej_def fuente_ej_def)
  have b: "distinct (map fuente_url (sources base_dos_ej))"
    using ne by (simp add: base_dos_ej_def fuente_ej_def fuente_guia_ej_def)
  have w: "escribir_ok env_ej f" for f
    by (simp add: env_ej_def)
  from eliminar_fuente_quita_primera[OF a, of env_ej] obtain xs f ys where
    d: "sources base_dos_ej = xs @ f # ys" "fuente_url f = url_inicio_ej"
      "url_inicio_ej \<notin> fuente_url ` set xs"
    and e: "eliminar_fuente env_ej url_inicio_ej base_dos_ej =
       (Exito (lit ''Fuente eliminada exitosamente''),
        base_dos_ej\<lparr>sources := xs @ ys,
          indexados := (indexados base_dos_ej)(url_inicio_ej := None),
          sources_file := (if escribir_ok env_ej (lit ''fuentes.json'') then xs @ ys
                           else sources_file base_dos_ej),
          indexados_file :=
            (if indexados base_dos_ej url_inicio_ej \<noteq> None \<and>
                escribir_ok env_ej (lit ''indexados.json'')
             then (indexados base_dos_ej)(url_inicio_ej := None)
             else indexados_file base_dos_ej)\<rparr>)"
    by blast
  have "xs = []"
    using d by (cases xs) (auto simp: base_dos_ej_def fuente_ej_def)
  with d have ys: "xs @ ys = [fuente_guia_ej]"
    by (simp add: base_dos_ej_def)
  have i: "indexados base_dos_ej url_inicio_ej = Some (lit ''2024-01-01 00:00:00'')"
    using ne by (simp add: base_dos_ej_def)
  have g: "indexados base_dos_ej url_guia_ej = Some (lit ''2024-01-02 00:00:00'')"
    by (simp add: base_dos_ej_def)
  from a b i g ne show ?thesis
    unfolding e ys by (simp add: w)
qed

section \<open>Properties of ingestion and indexing\<close>

lemma armar_lote_ids:
  "armar_lote env batch = Inr (ids, docs, metas) \<Longrightarrow> ids = map (\<lambda>d. doc_id env (url d)) batch"
  by (induction batch arbitrary: ids docs metas) (auto split: option.splits sum.splits)

lemma agregar_lotes_ids:
  "agregar_lotes env bs = (ls, None) \<Longrightarrow>
   concat (map fst ls) = map (\<lambda>d. doc_id env (url d)) (concat bs)"
proof (induction bs arbitrary: ls)
  case Nil
  then show ?case by simp
next
  case (Cons b bs)
  from Cons.prems obtain l ls' where l: "armar_lote env b = Inr l"
    and r: "agregar_lotes env bs = (ls', None)" and ls: "ls = l # ls'"
    by (auto split: sum.splits prod.splits)
  obtain ids docs metas where lt: "l = (ids, docs, metas)" by (cases l) auto
  from armar_lote_ids[of env b ids docs metas] l lt
  have "fst l = map (\<lambda>d. doc_id env (url d)) b" by simp
  with Cons.IH[OF r] ls show ?case by simp
qed

lemma concat_partir: "length xs \<le> k \<Longrightarrow> 0 < b \<Longrightarrow> concat (partir k b xs) = xs"
proof (induction k arbitrary: xs)
  case 0
  then show ?case by simp
next
  case (Suc k)
  show ?case
  proof (cases "xs = []")
    case True
    then show ?thesis by simp
  next
    case False
    then have "length (drop b xs) \<le> k" using Suc.prems by (cases xs) auto
    from Suc.IH[OF this Suc.prems(2)] False show ?thesis by simp
  qed
qed

lemma agregar_a_base_vectorial_ids:
  assumes "agregar_a_base_vectorial env documentos = (lotes, None)"
  shows "concat (map fst lotes) = map (\<lambda>d. doc_id env (url d)) documentos"
  using agregar_lotes_ids[OF assms[unfolded agregar_a_base_vectorial_def]]
  by (simp add: concat_partir)

lemma indexar_fuente_Indexado:
  assumes "indexar_fuente env u m prof s = Some (Inr (Indexado n), s', lotes)"
  shows "\<exists>docs. rastrear_sitio_web env u (case prof of None \<Rightarrow> m | Some p \<Rightarrow> p) = Some (Inr docs) \<and>
           concat (map fst lotes) = map (\<lambda>d. doc_id env (url d)) docs \<and>
           indexados s' = (indexados s)(u \<mapsto> fecha env)"
proof -
  let ?m = "case prof of None \<Rightarrow> m | Some p \<Rightarrow> p"
  from assms obtain docs where c: "rastrear_sitio_web env u ?m = Some (Inr docs)"
    and a: "agregar_a_base_vectorial env docs = (lotes, None)"
    and s': "s' = guardar_indexados env (s\<lparr>indexados := (indexados s)(u \<mapsto> fecha env)\<rparr>)"
    by (auto simp: indexar_fuente_def Let_def split: option.splits sum.splits if_splits prod.splits)
  from s' have "indexados s' = (indexados s)(u \<mapsto> fecha env)"
    by (simp add: guardar_indexados_def)
  with c agregar_a_base_vectorial_ids[OF a] show ?thesis by blast
qed

text \<open>The identifier of a URL follows the built-in \<open>hash\<close> of the process.\<close>

lemma doc_id_depende_del_proceso:
  "doc_id env_ej url_inicio_ej \<noteq> doc_id env_otro_proceso url_inicio_ej"
  by (simp add: doc_id_def env_otro_proceso_def env_ej_def url_inicio_ej_def lit_def str_nat.simps)

text \<open>
  Two runs that share the built-in \<open>hash\<close> submit identifiers computed by one function
  of the page URL, and the second run overwrites the timestamp of the first.
\<close>

lemma reindexar_misma_url:
  assumes "indexar_fuente env1 u m prof s = Some (Inr (Indexado n1), s1, lotes1)"
    and "indexar_fuente env2 u m prof s1 = Some (Inr (Indexado n2), s2, lotes2)"
    and "hash env1 = hash env2"
  shows "(\<exists>docs1 docs2.
            rastrear_sitio_web env1 u (case prof of None \<Rightarrow> m | Some p \<Rightarrow> p) = Some (Inr docs1) \<and>
            rastrear_sitio_web env2 u (case prof of None \<Rightarrow> m | Some p \<Rightarrow> p) = Some (Inr docs2) \<and>
            concat (map fst lotes1) = map (\<lambda>d. doc_id env1 (url d)) docs1 \<and>
            concat (map fst lotes2) = map (\<lambda>d. doc_id env1 (url d)) docs2) \<and>
         indexados s2 = (indexados s)(u \<mapsto> fecha env2) \<and>
         dom (indexados s2) = dom (indexados s1)"
proof -
  have same: "doc_id env2 x = doc_id env1 x" for x
    using assms(3) by (simp add: doc_id_def)
  from indexar_fuente_Indexado[OF assms(1)] obtain docs1 where
    1: "rastrear_sitio_web env1 u (case prof of None \<Rightarrow> m | Some p \<Rightarrow> p) = Some (Inr docs1)"
      "concat (map fst lotes1) = map (\<lambda>d. doc_id env1 (url d)) docs1"
      "indexados s1 = (indexados s)(u \<mapsto> fecha env1)" by blast
  from indexar_fuente_Indexado[OF assms(2)] obtain docs2 where
    2: "rastrear_sitio_web env2 u (case prof of None \<Rightarrow> m | Some p \<Rightarrow> p) = Some (Inr docs2)"
      "concat (map fst lotes2) = map (\<lambda>d. doc_id env2 (url d)) docs2"
      "indexados s2 = (indexados s1)(u \<mapsto> fecha env2)" by blast
  from 1 2 same show ?thesis by auto
qed

lemma agregar_ej: "agregar_a_base_vectorial env_ej [pagina_ej] = (lotes_ej, None)"
proof -
  have p: "urlparse env_ej url_inicio_ej =
      Some \<lparr>scheme = lit ''https'', netloc = lit ''example.com'', path = lit ''/''\<rparr>"
    by (simp add: env_ej_def urlparse_ej_def)
  have "snd (agregar_a_base_vectorial env_ej [pagina_ej]) = None"
    by (simp add: agregar_a_base_vectorial_def pagina_ej_def p)
  then show ?thesis by (simp add: lotes_ej_def prod_eq_iff)
qed

lemma indexar_ej:
  "indexar_fuente env_ej url_inicio_ej 1 None s =
     Some (Inr (Indexado 1),
           guardar_indexados env_ej (s\<lparr>indexados := (indexados s)(url_inicio_ej \<mapsto> fecha env_ej)\<rparr>),
           lotes_ej)"
  by (simp add: indexar_fuente_def rastrear_ej agregar_ej)

lemma reindexar_misma_url_ej:
  "indexar_fuente env_ej url_inicio_ej 1 None base_ej =
     Some (Inr (Indexado 1),
           guardar_indexados env_ej
             (base_ej\<lparr>indexados := (indexados base_ej)(url_inicio_ej \<mapsto> fecha env_ej)\<rparr>),
           lotes_ej) \<and>
   concat (map fst lotes_ej) = [doc_id env_ej url_inicio_ej] \<and>
   dom (indexados (guardar_indexados env_ej
         (base_ej\<lparr>indexados := (indexados base_ej)(url_inicio_ej \<mapsto> fecha env_ej)\<rparr>)))
     = {url_inicio_ej}"
proof -
  let ?s1 = "guardar_indexados env_ej
      (base_ej\<lparr>indexados := (indexados base_ej)(url_inicio_ej \<mapsto> fecha env_ej)\<rparr>)"
  let ?s2 = "guardar_indexados env_ej
      (?s1\<lparr>indexados := (indexados ?s1)(url_inicio_ej \<mapsto> fecha env_ej)\<rparr>)"
  have a: "indexar_fuente env_ej url_inicio_ej 1 None base_ej = Some (Inr (Indexado 1), ?s1, lotes_ej)"
    by (rule indexar_ej)
  have b: "indexar_fuente env_ej url_inicio_ej 1 None ?s1 = Some (Inr (Indexado 1), ?s2, lotes_ej)"
    by (rule indexar_ej)
  note th = reindexar_misma_url[OF a b refl]
  have d: "dom (indexados ?s2) = dom (indexados ?s1)"
    using th by (elim conjE)
  from th obtain docs1 where
    r: "rastrear_sitio_web env_ej url_inicio_ej (case None of None \<Rightarrow> 1 | Some p \<Rightarrow> p) = Some (Inr docs1)"
    and i: "concat (map fst lotes_ej) = map (\<lambda>d. doc_id env_ej (url d)) docs1"
    by (elim conjE exE)
  from r rastrear_ej have "docs1 = [pagina_ej]" by simp
  with i have c: "concat (map fst lotes_ej) = map (\<lambda>d. doc_id env_ej (url d)) [pagina_ej]"
    by simp
  have e: "dom (indexados ?s1) = {url_inicio_ej}"
    by (simp add: guardar_indexados_def base_ej_def)
  from a c e show ?thesis by (simp add: pagina_ej_def)
qed

lemma doc_id_ej: "doc_id env_ej url_inicio_ej = lit ''doc_1875''"
  by (simp add: doc_id_def env_ej_def url_inicio_ej_def lit_def str_nat.simps)

lemma doc_id_otro: "doc_id env_otro_proceso url_inicio_ej = lit ''doc_1876''"
  by (simp add: doc_id_def env_otro_proceso_def env_ej_def url_inicio_ej_def lit_def str_nat.simps)

lemma extraer_otro: "extraer_pagina_individual env_otro_proceso t url_inicio_ej = Some pagina_ej"
  by (simp add: extraer_pagina_individual_def env_otro_proceso_def env_ej_def soup_ej_def
      extraer_titulo_def extraer_contenido_principal_def selectors_def limpiar_texto_ej
      limpiar_Inicio split_texto_ej pagina_ej_def Let_def texto_ej_ne inicio_ne)

lemma pop_otro: "pop env_otro_proceso t {u} = u"
  by (simp add: env_otro_proceso_def env_ej_def)

lemma paso_otro:
  "paso env_otro_proceso d 1 \<lparr>to_visit = {url_inicio_ej}, visited = {}, results = [], reloj = 0\<rparr>
   = \<lparr>to_visit = {}, visited = {url_inicio_ej}, results = [pagina_ej], reloj = 2\<rparr>"
  by (simp add: paso_def Let_def pop_otro extraer_otro)

lemma urlparse_otro:
  "urlparse env_otro_proceso url_inicio_ej =
     Some \<lparr>scheme = lit ''https'', netloc = lit ''example.com'', path = lit ''/''\<rparr>"
  by (simp add: env_otro_proceso_def env_ej_def urlparse_ej_def)

lemma rastrear_otro: "rastrear_sitio_web env_otro_proceso url_inicio_ej 1 = Some (Inr [pagina_ej])"
  apply (simp add: rastrear_sitio_web_def urlparse_otro)
  apply (subst bucle.simps)
  apply (simp add: sigue_def paso_otro)
  apply (subst bucle.simps)
  apply (simp add: sigue_def)
  done

lemma agregar_otro: "agregar_a_base_vectorial env_otro_proceso [pagina_ej] = (lotes_otro_ej, None)"
proof -
  have "snd (agregar_a_base_vectorial env_otro_proceso [pagina_ej]) = None"
    by (simp add: agregar_a_base_vectorial_def pagina_ej_def urlparse_otro)
  then show ?thesis by (simp add: lotes_otro_ej_def prod_eq_iff)
qed

lemma indexar_otro:
  "indexar_fuente env_otro_proceso url_inicio_ej 1 None s =
     Some (Inr (Indexado 1),
           guardar_indexados env_otro_proceso
             (s\<lparr>indexados := (indexados s)(url_inicio_ej \<mapsto> fecha env_otro_proceso)\<rparr>),
           lotes_otro_ej)"
  by (simp add: indexar_fuente_def rastrear_otro agregar_otro)

text \<open>
  Claim C7: the identifier submitted to the search collaborator is a deterministic
  function of the URL of the document, the same across separate indexing runs, so that
  indexing a URL again submits the same identifier; and \<open>indexar_fuente\<close> overwrites
  the timestamp of the URL. The identifier is \<open>doc_\<close> followed by \<open>abs(hash(url))\<close>
  and the built-in \<open>hash\<close> of a string is salted anew in every interpreter process:
  the example site indexed in one process and again in another submits \<open>doc_1875\<close>
  and then \<open>doc_1876\<close> for the same page. (The timestamp is overwritten in both.)
\<close>

theorem reindexar_en_otro_proceso:
  "indexar_fuente env_ej url_inicio_ej 1 None base_ej =
     Some (Inr (Indexado 1),
           guardar_indexados env_ej
             (base_ej\<lparr>indexados := (indexados base_ej)(url_inicio_ej \<mapsto> fecha env_ej)\<rparr>),
           lotes_ej) \<and>
   indexar_fuente env_otro_proceso url_inicio_ej 1 None
       (guardar_indexados env_ej
          (base_ej\<lparr>indexados := (indexados base_ej)(url_inicio_ej \<mapsto> fecha env_ej)\<rparr>)) =
     Some (Inr (Indexado 1),
           guardar_indexados env_otro_proceso
             (guardar_indexados env_ej
                (base_ej\<lparr>indexados := (indexados base_ej)(url_inicio_ej \<mapsto> fecha env_ej)\<rparr>)
              \<lparr>indexados :=
                 (indexados (guardar_indexados env_ej
                    (base_ej\<lparr>indexados := (indexados base_ej)(url_inicio_ej \<mapsto> fecha env_ej)\<rparr>)))
                 (url_inicio_ej \<mapsto> fecha env_otro_proceso)\<rparr>),
           lotes_otro_ej) \<and>
   concat (map fst lotes_ej) = [lit ''doc_1875''] \<and>
   concat (map fst lotes_otro_ej) = [lit ''doc_1876'']"
proof -
  have a: "concat (map fst lotes_ej) = [lit ''doc_1875'']"
    using agregar_a_base_vectorial_ids[OF agregar_ej] by (simp add: pagina_ej_def doc_id_ej)
  have b: "concat (map fst lotes_otro_ej) = [lit ''doc_1876'']"
    using agregar_a_base_vectorial_ids[OF agregar_otro] by (simp add: pagina_ej_def doc_id_otro)
  from a b show ?thesis
    by (simp only: indexar_ej indexar_otro)
qed

end
